theory Spec2Isabelle
  imports Main
begin

section \<open>Strings of the host language\<close>

text \<open>
  A string of the program is a list of characters. The 256 values of \<^typ>\<open>char\<close> are read as
  the UTF-16 code units below 256 (ASCII and Latin-1), which is closed under every string
  operation the program uses. \<open>isSpace\<close> is the white space of \<open>\s\<close> and of \<open>trim()\<close> in that
  range: tab, line feed, vertical tab, form feed, carriage return, space, no-break space.
\<close>

definition isSpace :: "char \<Rightarrow> bool" where
  "isSpace c = (c \<in> set [CHR 0x09, CHR 0x0A, CHR 0x0B, CHR 0x0C, CHR 0x0D, CHR 0x20, CHR 0xA0])"

definition isDigit :: "char \<Rightarrow> bool" where
  "isDigit c = (c \<in> set ''0123456789'')"

definition trim :: "string \<Rightarrow> string" where
  "trim s = rev (dropWhile isSpace (rev (dropWhile isSpace s)))"

definition toLowerChar :: "char \<Rightarrow> char" where
  "toLowerChar c =
     (let n = (of_char c :: nat)
      in if (65 \<le> n \<and> n \<le> 90) \<or> (192 \<le> n \<and> n \<le> 222 \<and> n \<noteq> 215) then char_of (n + 32) else c)"

definition toLowerCase :: "string \<Rightarrow> string" where
  "toLowerCase s = map toLowerChar s"

text \<open>\<open>s.split(c)\<close> for a one-character separator: the empty string gives one empty piece.\<close>

fun splitAcc :: "char \<Rightarrow> string \<Rightarrow> string \<Rightarrow> string list" where
  "splitAcc sep cur [] = [cur]"
| "splitAcc sep cur (c # cs) =
     (if c = sep then cur # splitAcc sep [] cs else splitAcc sep (cur @ [c]) cs)"

definition split :: "char \<Rightarrow> string \<Rightarrow> string list" where
  "split sep s = splitAcc sep [] s"

text \<open>\<open>xs.join(sep)\<close>.\<close>

fun join :: "string \<Rightarrow> string list \<Rightarrow> string" where
  "join sep [] = []"
| "join sep [x] = x"
| "join sep (x # y # ys) = x @ sep @ join sep (y # ys)"

text \<open>\<open>s.includes(sub)\<close>: \<open>sub\<close> occurs in \<open>s\<close> as a contiguous run of characters.\<close>

definition startsWith :: "string \<Rightarrow> string \<Rightarrow> bool" where
  "startsWith s sub = (take (length sub) s = sub)"

fun includesStr :: "string \<Rightarrow> string \<Rightarrow> bool" where
  "includesStr [] sub = (sub = [])"
| "includesStr (c # cs) sub = (startsWith (c # cs) sub \<or> includesStr cs sub)"

text \<open>\<open>s.replace(/\n+/g, ' ')\<close>: every maximal run of line feeds becomes one space.\<close>

fun collapseRun :: "bool \<Rightarrow> string \<Rightarrow> string" where
  "collapseRun inRun [] = []"
| "collapseRun inRun (c # cs) =
     (if c = CHR 0x0A then (if inRun then collapseRun True cs else CHR '' '' # collapseRun True cs)
      else c # collapseRun False cs)"

definition collapseNewlines :: "string \<Rightarrow> string" where
  "collapseNewlines s = collapseRun False s"

text \<open>The decimal rendering of a number inside a template literal.\<close>

fun showNat :: "nat \<Rightarrow> string" where
  "showNat n = (if n < 10 then [char_of (48 + n)] else showNat (n div 10) @ [char_of (48 + n mod 10)])"

declare showNat.simps [simp del]

definition showInt :: "int \<Rightarrow> string" where
  "showInt i = (if i < 0 then CHR ''-'' # showNat (nat (- i)) else showNat (nat i))"

section \<open>Regular expressions\<close>

text \<open>
  The parser is written with backtracking regular expressions, so the model carries a
  backtracking matcher for the constructs its patterns use: literal characters, the classes
  \<open>\s\<close>, \<open>\d\<close>, \<open>[^\n]\<close> and \<open>.\<close>, sequence, alternation, greedy and lazy repetition, capture
  groups, positive and negative lookahead, \<open>^\<close> and \<open>$\<close> (without the multiline flag).
  It follows the matcher of the language standard: alternatives are tried left to right, a greedy
  repetition tries one more iteration before the rest of the pattern and a lazy one after it, an
  iteration that consumes nothing is rejected, and the groups inside a repetition are cleared at
  the start of each iteration.
\<close>

datatype cclass = Lit char | Space | Digit | NotNewline | Dot

datatype regex =
    Eps
  | Chr cclass
  | Seq regex regex
  | Alt regex regex
  | Star bool regex
  | Group nat regex
  | Look bool regex
  | Bol
  | Eol

record flags =
  ignoreCase :: bool
  dotAll :: bool

text \<open>
  Case folding of the \<open>i\<close> flag: a character is compared through its upper-case form. In the
  modelled range the small letters a to z and the accented small letters except the division sign
  have one; \<open>0xFF\<close>, \<open>0xB5\<close> and \<open>0xDF\<close> have none inside the range and stay as they are.
\<close>

definition canonicalize :: "char \<Rightarrow> char" where
  "canonicalize c =
     (let n = (of_char c :: nat)
      in if (97 \<le> n \<and> n \<le> 122) \<or> (224 \<le> n \<and> n \<le> 254 \<and> n \<noteq> 247) then char_of (n - 32) else c)"

fun classMatch :: "flags \<Rightarrow> cclass \<Rightarrow> char \<Rightarrow> bool" where
  "classMatch f (Lit a) c = (if ignoreCase f then canonicalize a = canonicalize c else a = c)"
| "classMatch f Space c = isSpace c"
| "classMatch f Digit c = isDigit c"
| "classMatch f NotNewline c = (c \<noteq> CHR 0x0A)"
| "classMatch f Dot c = (dotAll f \<or> (c \<noteq> CHR 0x0A \<and> c \<noteq> CHR 0x0D))"

fun groupsOf :: "regex \<Rightarrow> nat list" where
  "groupsOf (Seq a b) = groupsOf a @ groupsOf b"
| "groupsOf (Alt a b) = groupsOf a @ groupsOf b"
| "groupsOf (Star g r) = groupsOf r"
| "groupsOf (Group n r) = n # groupsOf r"
| "groupsOf (Look p r) = groupsOf r"
| "groupsOf Eps = []"
| "groupsOf (Chr cl) = []"
| "groupsOf Bol = []"
| "groupsOf Eol = []"

text \<open>
  A matcher state: the index reached, the input from that index on, and the captures made so
  far (group number and captured text; a group that did not take part has no entry).
\<close>

type_synonym captures = "(nat \<times> string) list"
type_synonym mstate = "nat \<times> string \<times> captures"

definition remaining :: "mstate \<Rightarrow> nat" where
  "remaining s = (case s of (i, cs, caps) \<Rightarrow> length cs)"

definition clearCaps :: "nat list \<Rightarrow> mstate \<Rightarrow> mstate" where
  "clearCaps gs s = (case s of (i, cs, caps) \<Rightarrow> (i, cs, filter (\<lambda>(j, v). j \<notin> set gs) caps))"

definition setCap :: "nat \<Rightarrow> mstate \<Rightarrow> mstate \<Rightarrow> mstate" where
  "setCap n s s' =
     (case s of (i, cs, caps) \<Rightarrow>
        (case s' of (i', cs', caps') \<Rightarrow>
           (i', cs', (n, take (i' - i) cs) # filter (\<lambda>(j, v). j \<noteq> n) caps')))"

definition capture :: "captures \<Rightarrow> nat \<Rightarrow> string option" where
  "capture caps n = map_of caps n"

text \<open>
  Repetition. \<open>mr\<close> matches one iteration and hands the state it reached to its continuation; the
  continuation goes round again only when the iteration consumed input.
\<close>

function repeatMatcher :: "bool \<Rightarrow> nat list \<Rightarrow> ((mstate \<Rightarrow> mstate option) \<Rightarrow> mstate \<Rightarrow> mstate option)
    \<Rightarrow> (mstate \<Rightarrow> mstate option) \<Rightarrow> mstate \<Rightarrow> mstate option" where
  "repeatMatcher greedy gs mr k s =
     (if greedy then
        (case mr (\<lambda>s'. if remaining s' < remaining s then repeatMatcher greedy gs mr k s' else None)
                 (clearCaps gs s) of
           Some r \<Rightarrow> Some r
         | None \<Rightarrow> k s)
      else
        (case k s of
           Some r \<Rightarrow> Some r
         | None \<Rightarrow>
             mr (\<lambda>s'. if remaining s' < remaining s then repeatMatcher greedy gs mr k s' else None)
                (clearCaps gs s)))"
  by pat_completeness auto
termination
  by (relation "measure (\<lambda>(g, gs, mr, k, s). remaining s)") auto

declare repeatMatcher.simps [simp del]

text \<open>
  The matcher, in continuation-passing style: \<open>matchRe f r k s\<close> matches \<open>r\<close> at state \<open>s\<close> and
  calls \<open>k\<close> on the state reached; \<open>None\<close> is failure, after which the caller tries its next
  choice.
\<close>

primrec matchRe :: "flags \<Rightarrow> regex \<Rightarrow> (mstate \<Rightarrow> mstate option) \<Rightarrow> mstate \<Rightarrow> mstate option" where
  "matchRe f Eps k s = k s"
| "matchRe f (Chr cl) k s =
     (case s of (i, cs, caps) \<Rightarrow>
        (case cs of
           [] \<Rightarrow> None
         | c # cs' \<Rightarrow> if classMatch f cl c then k (Suc i, cs', caps) else None))"
| "matchRe f (Seq a b) k s = matchRe f a (matchRe f b k) s"
| "matchRe f (Alt a b) k s = (case matchRe f a k s of Some r \<Rightarrow> Some r | None \<Rightarrow> matchRe f b k s)"
| "matchRe f (Star g r) k s = repeatMatcher g (groupsOf r) (matchRe f r) k s"
| "matchRe f (Group n r) k s = matchRe f r (\<lambda>s'. k (setCap n s s')) s"
| "matchRe f (Look positive r) k s =
     (case matchRe f r Some s of
        Some s' \<Rightarrow>
          if positive then (case s of (i, cs, caps) \<Rightarrow> (case s' of (i', cs', caps') \<Rightarrow> k (i, cs, caps')))
          else None
      | None \<Rightarrow> if positive then None else k s)"
| "matchRe f Bol k s = (case s of (i, cs, caps) \<Rightarrow> if i = 0 then k s else None)"
| "matchRe f Eol k s = (case s of (i, cs, caps) \<Rightarrow> if cs = [] then k s else None)"

text \<open>Shorthands for writing patterns: a literal word, \<open>r1 r2 ... rn\<close>, \<open>r1|...|rn\<close>, \<open>r+\<close>, \<open>r?\<close>.\<close>

fun lit :: "string \<Rightarrow> regex" where
  "lit [] = Eps"
| "lit (c # cs) = Seq (Chr (Lit c)) (lit cs)"

fun seqs :: "regex list \<Rightarrow> regex" where
  "seqs [] = Eps"
| "seqs (r # rs) = Seq r (seqs rs)"

fun alts :: "regex list \<Rightarrow> regex" where
  "alts [] = Look False Eps"
| "alts [r] = r"
| "alts (r # q # rs) = Alt r (alts (q # rs))"

definition plus :: "bool \<Rightarrow> regex \<Rightarrow> regex" where
  "plus greedy r = Seq r (Star greedy r)"

definition opt :: "regex \<Rightarrow> regex" where
  "opt r = Alt r Eps"

text \<open>
  \<open>execFrom f r i cs\<close> is \<open>exec\<close> on the input whose part from index \<open>i\<close> on is \<open>cs\<close>: the first
  index at or after \<open>i\<close> where the pattern matches, with the state at the end of the match.
\<close>

fun execFrom :: "flags \<Rightarrow> regex \<Rightarrow> nat \<Rightarrow> string \<Rightarrow> (nat \<times> mstate) option" where
  "execFrom f r i [] = (case matchRe f r Some (i, [], []) of Some s \<Rightarrow> Some (i, s) | None \<Rightarrow> None)"
| "execFrom f r i (c # cs) =
     (case matchRe f r Some (i, c # cs, []) of
        Some s \<Rightarrow> Some (i, s)
      | None \<Rightarrow> execFrom f r (Suc i) cs)"

text \<open>\<open>re.test(s)\<close> for a pattern without the global flag.\<close>

definition test :: "flags \<Rightarrow> regex \<Rightarrow> string \<Rightarrow> bool" where
  "test f r s = (execFrom f r 0 s \<noteq> None)"

text \<open>\<open>s.replace(re, repl)\<close> for a pattern without the global flag: the first match is replaced.\<close>

definition replaceFirst :: "flags \<Rightarrow> regex \<Rightarrow> string \<Rightarrow> string \<Rightarrow> string" where
  "replaceFirst f r repl s =
     (case execFrom f r 0 s of
        None \<Rightarrow> s
      | Some (start, (e, cs', caps)) \<Rightarrow> take start s @ repl @ cs')"

text \<open>
  \<open>s.split(re)\<close> for a pattern without capture groups. At each index the pattern is tried at that
  index only; a match that ends where the current piece began is skipped.
\<close>

function splitLoop :: "flags \<Rightarrow> regex \<Rightarrow> nat \<Rightarrow> string \<Rightarrow> string \<Rightarrow> string list" where
  "splitLoop f r i [] cur = [cur]"
| "splitLoop f r i (c # cs) cur =
     (case matchRe f r Some (i, c # cs, []) of
        None \<Rightarrow> splitLoop f r (Suc i) cs (cur @ [c])
      | Some (e, cs', caps) \<Rightarrow>
          if length cs' < length (c # cs) then cur # splitLoop f r e cs' []
          else if cur = [] then splitLoop f r (Suc i) cs [c]
          else cur # splitLoop f r (Suc i) cs [c])"
  by pat_completeness auto
termination
  by (relation "measure (\<lambda>(f, r, i, cs, cur). length cs)") auto

definition splitRe :: "flags \<Rightarrow> regex \<Rightarrow> string \<Rightarrow> string list" where
  "splitRe f r s =
     (if s = [] then (if matchRe f r Some (0, [], []) \<noteq> None then [] else [[]])
      else splitLoop f r 0 s [])"

subsection \<open>A match never moves backwards\<close>

lemma remaining_clearCaps [simp]: "remaining (clearCaps gs s) = remaining s"
  by (simp add: remaining_def clearCaps_def split: prod.splits)

lemma remaining_setCap [simp]: "remaining (setCap n s s') = remaining s'"
  by (simp add: remaining_def setCap_def split: prod.splits)

lemma repeatMatcher_suffix:
  assumes step: "\<And>k s res. mr k s = Some res \<Longrightarrow> \<exists>s'. k s' = Some res \<and> remaining s' \<le> remaining s"
  shows "repeatMatcher g gs mr k s = Some res \<Longrightarrow> \<exists>s'. k s' = Some res \<and> remaining s' \<le> remaining s"
proof (induction "remaining s" arbitrary: s rule: less_induct)
  case less
  let ?again = "\<lambda>s'. if remaining s' < remaining s then repeatMatcher g gs mr k s' else None"
  have iter: "\<exists>s'. k s' = Some res \<and> remaining s' \<le> remaining s"
    if it: "mr ?again (clearCaps gs s) = Some res"
  proof -
    from step [OF it] obtain s1 where s1: "?again s1 = Some res" "remaining s1 \<le> remaining s"
      by auto
    from s1(1) have lt: "remaining s1 < remaining s" and rec: "repeatMatcher g gs mr k s1 = Some res"
      by (auto split: if_splits)
    from less.hyps [OF lt rec] obtain s2 where "k s2 = Some res" "remaining s2 \<le> remaining s1"
      by auto
    with lt show ?thesis by (intro exI [of _ s2]) simp
  qed
  from less.prems have
    "(g \<and> (mr ?again (clearCaps gs s) = Some res \<or> k s = Some res)) \<or>
     (\<not> g \<and> (k s = Some res \<or> mr ?again (clearCaps gs s) = Some res))"
    by (subst (asm) repeatMatcher.simps) (auto split: if_splits option.splits)
  moreover have "\<exists>s'. k s' = Some res \<and> remaining s' \<le> remaining s" if "k s = Some res"
    using that by (intro exI [of _ s]) simp
  ultimately show ?case using iter by blast
qed

lemma matchRe_suffix:
  "matchRe f r k s = Some res \<Longrightarrow> \<exists>s'. k s' = Some res \<and> remaining s' \<le> remaining s"
proof (induction r arbitrary: k s res)
  case Eps
  then show ?case by (intro exI [of _ s]) simp
next
  case (Chr cl)
  obtain i cs caps where s: "s = (i, cs, caps)" by (cases s)
  from Chr s obtain c cs' where "cs = c # cs'" "k (Suc i, cs', caps) = Some res"
    by (auto split: list.splits if_splits)
  then show ?case by (intro exI [of _ "(Suc i, cs', caps)"]) (simp add: s remaining_def)
next
  case (Seq a b)
  from Seq.prems have "matchRe f a (matchRe f b k) s = Some res" by simp
  from Seq.IH(1) [OF this] obtain s1 where
    "matchRe f b k s1 = Some res" and le1: "remaining s1 \<le> remaining s" by auto
  from Seq.IH(2) [OF this(1)] obtain s2 where "k s2 = Some res" "remaining s2 \<le> remaining s1" by auto
  with le1 show ?case by (intro exI [of _ s2]) simp
next
  case (Alt a b)
  from Alt.prems have "matchRe f a k s = Some res \<or> matchRe f b k s = Some res"
    by (auto split: option.splits)
  then show ?case using Alt.IH by blast
next
  case (Star g r)
  from Star.prems have "repeatMatcher g (groupsOf r) (matchRe f r) k s = Some res" by simp
  then show ?case by (rule repeatMatcher_suffix [rotated]) (rule Star.IH)
next
  case (Group n r)
  from Group.prems have "matchRe f r (\<lambda>s'. k (setCap n s s')) s = Some res" by simp
  from Group.IH [OF this] obtain s1 where "k (setCap n s s1) = Some res" "remaining s1 \<le> remaining s"
    by auto
  then show ?case by (intro exI [of _ "setCap n s s1"]) simp
next
  case (Look positive r)
  obtain i cs caps where s: "s = (i, cs, caps)" by (cases s)
  from Look.prems s have "k s = Some res \<or> (\<exists>caps'. k (i, cs, caps') = Some res)"
    by (auto split: option.splits if_splits prod.splits)
  then show ?case
  proof
    assume "k s = Some res"
    then show ?thesis by (intro exI [of _ s]) simp
  next
    assume "\<exists>caps'. k (i, cs, caps') = Some res"
    then obtain caps' where "k (i, cs, caps') = Some res" ..
    then show ?thesis by (intro exI [of _ "(i, cs, caps')"]) (simp add: s remaining_def)
  qed
next
  case Bol
  then have "k s = Some res" by (auto split: prod.splits if_splits)
  then show ?case by (intro exI [of _ s]) simp
next
  case Eol
  then have "k s = Some res" by (auto split: prod.splits if_splits)
  then show ?case by (intro exI [of _ s]) simp
qed

lemma matchRe_first_char:
  assumes "matchRe f (Seq (Seq (Chr cl) a) b) Some s = Some res"
  shows "remaining res < remaining s"
proof -
  obtain i cs caps where s: "s = (i, cs, caps)" by (cases s)
  from assms s obtain c cs' where cs: "cs = c # cs'"
    and rest: "matchRe f a (matchRe f b Some) (Suc i, cs', caps) = Some res"
    by (auto split: list.splits if_splits)
  from matchRe_suffix [OF rest] obtain s1 where
    "matchRe f b Some s1 = Some res" and le1: "remaining s1 \<le> remaining (Suc i, cs', caps)" by auto
  from matchRe_suffix [OF this(1)] have "remaining res \<le> remaining s1" by auto
  with le1 show ?thesis by (simp add: s cs remaining_def)
qed

lemma execFrom_first_char:
  "execFrom f (Seq (Seq (Chr cl) a) b) i cs = Some (start, res) \<Longrightarrow> remaining res < length cs"
proof (induction cs arbitrary: i)
  case Nil
  then have "matchRe f (Seq (Seq (Chr cl) a) b) Some (i, [], []) = Some res"
    by (auto split: option.splits)
  from matchRe_first_char [OF this] show ?case by (simp add: remaining_def)
next
  case (Cons c cs)
  show ?case
  proof (cases "matchRe f (Seq (Seq (Chr cl) a) b) Some (i, c # cs, [])")
    case None
    with Cons.prems have "execFrom f (Seq (Seq (Chr cl) a) b) (Suc i) cs = Some (start, res)" by simp
    from Cons.IH [OF this] show ?thesis by simp
  next
    case (Some s1)
    with Cons.prems have "s1 = res" by simp
    with Some matchRe_first_char [of f cl a b "(i, c # cs, [])" res] show ?thesis
      by (simp add: remaining_def)
  qed
qed

section \<open>The scenario parser (parser/gherkinParser.ts)\<close>

record ParsedScenario =
  name :: string
  steps :: "string list"
  expectedResult :: string

definition flagsGI :: flags where
  "flagsGI = \<lparr>ignoreCase = True, dotAll = False\<rparr>"

definition flagsGIS :: flags where
  "flagsGIS = \<lparr>ignoreCase = True, dotAll = True\<rparr>"

definition flagsNone :: flags where
  "flagsNone = \<lparr>ignoreCase = False, dotAll = False\<rparr>"

definition lineFeed :: regex where
  "lineFeed = Chr (Lit (CHR 0x0A))"

text \<open>\<open>(?:Given|When|Then|And|But)\<close>\<close>

definition stepKeyword :: regex where
  "stepKeyword = alts [lit ''Given'', lit ''When'', lit ''Then'', lit ''And'', lit ''But'']"

text \<open>
  \<open>/Scenario\s*(\d+)?\s*:?\s*((?:[^\n]*(?:\n(?!\s*(?:Given|When|Then|And|But|Scenario))[^\n]*)*))\<close>
  \<open>(?:\n\s*)*((?:Given|When|Then|And|But)[^\n]*(?:\n(?!Scenario)[^\n]*)*)/gi\<close>
\<close>

definition scenarioPattern :: regex where
  "scenarioPattern = seqs [
     lit ''Scenario'',
     Star True (Chr Space),
     opt (Group 1 (plus True (Chr Digit))),
     Star True (Chr Space),
     opt (Chr (Lit CHR '':'')),
     Star True (Chr Space),
     Group 2 (Seq (Star True (Chr NotNewline))
                  (Star True (seqs [
                     lineFeed,
                     Look False (Seq (Star True (Chr Space))
                       (alts [lit ''Given'', lit ''When'', lit ''Then'', lit ''And'', lit ''But'',
                              lit ''Scenario''])),
                     Star True (Chr NotNewline)]))),
     Star True (Seq lineFeed (Star True (Chr Space))),
     Group 3 (seqs [
       stepKeyword,
       Star True (Chr NotNewline),
       Star True (seqs [lineFeed, Look False (lit ''Scenario''), Star True (Chr NotNewline)])])]"

text \<open>\<open>/^(Given|When|Then|And|But)\s+/i\<close>, \<open>/^then\s+/i\<close> and \<open>/^and\s+then\s+/i\<close>\<close>

definition stepLinePattern :: regex where
  "stepLinePattern = seqs [Bol, Group 1 stepKeyword, plus True (Chr Space)]"

definition thenPattern :: regex where
  "thenPattern = seqs [Bol, lit ''then'', plus True (Chr Space)]"

definition andThenPattern :: regex where
  "andThenPattern = seqs [Bol, lit ''and'', plus True (Chr Space), lit ''then'', plus True (Chr Space)]"

text \<open>\<open>extractSteps\<close>: the trimmed lines of the block that start with a step keyword and white space.\<close>

definition extractSteps :: "string \<Rightarrow> string list" where
  "extractSteps stepsBlock =
     filter (test flagsGI stepLinePattern) (map trim (split (CHR 0x0A) stepsBlock))"

text \<open>
  \<open>extractExpectedResult\<close>. The loop runs from the last step to the first; \<open>lastThenContent\<close> is
  that loop on the reversed list, and returns the content of the first step it finds that starts
  with \<open>then\<close> or \<open>and then\<close>, the keyword removed.
\<close>

fun lastThenContent :: "string list \<Rightarrow> string option" where
  "lastThenContent [] = None"
| "lastThenContent (step # earlier) =
     (if test flagsGI thenPattern step then Some (trim (replaceFirst flagsGI thenPattern [] step))
      else if test flagsGI andThenPattern step then Some (trim (replaceFirst flagsGI andThenPattern [] step))
      else lastThenContent earlier)"

definition extractExpectedResult :: "string list \<Rightarrow> string" where
  "extractExpectedResult stepList =
     (case lastThenContent (rev stepList) of
        Some content \<Rightarrow> content
      | None \<Rightarrow>
          if stepList \<noteq> [] then trim (replaceFirst flagsGI stepLinePattern [] (last stepList))
          else [])"

lemma scenarioPattern_progress:
  assumes "execFrom f scenarioPattern i cs = Some (start, e, cs', caps)"
  shows "length cs' < length cs"
proof -
  obtain a b where "scenarioPattern = Seq (Seq (Chr (Lit CHR ''S'')) a) b"
    by (simp add: scenarioPattern_def)
  with assms execFrom_first_char [of f "Lit CHR ''S''" a b i cs start "(e, cs', caps)"]
  show ?thesis by (simp add: remaining_def)
qed

text \<open>
  The body of the loop of \<open>parseScenarios\<close>, from the groups of one match: the scenario to push,
  or nothing when the block has no step. \<open>count\<close> is \<open>scenarios.length\<close>.
\<close>

definition scenarioOfMatch :: "captures \<Rightarrow> nat \<Rightarrow> ParsedScenario option" where
  "scenarioOfMatch caps count =
     (let scenarioNumber = (case capture caps 1 of None \<Rightarrow> [] | Some d \<Rightarrow> d);
          synthesized = ''Scenario '' @
            (if scenarioNumber \<noteq> [] then scenarioNumber else showNat (count + 1));
          scenarioTitle =
            (case capture caps 2 of
               None \<Rightarrow> synthesized
             | Some t \<Rightarrow>
                 if trim (collapseNewlines (trim t)) = [] then synthesized
                 else trim (collapseNewlines (trim t)));
          stepsBlock = (case capture caps 3 of None \<Rightarrow> [] | Some b \<Rightarrow> b);
          stepList = extractSteps stepsBlock
      in if length stepList = 0 then None
         else Some \<lparr>name = (if trim scenarioTitle = [] then synthesized else trim scenarioTitle),
                     steps = stepList,
                     expectedResult = extractExpectedResult stepList\<rparr>)"

text \<open>
  The loop \<open>while ((match = scenarioPattern.exec(description)) !== null)\<close>. \<open>lastIndex\<close> is the
  index the next search starts from and \<open>cs\<close> the description from there on; \<open>scenarios\<close> is the
  array built so far.
\<close>

function parseLoop :: "nat \<Rightarrow> string \<Rightarrow> ParsedScenario list \<Rightarrow> ParsedScenario list" where
  "parseLoop lastIndex cs scenarios =
     (case execFrom flagsGI scenarioPattern lastIndex cs of
        None \<Rightarrow> scenarios
      | Some (start, e, cs', caps) \<Rightarrow>
          parseLoop e cs'
            (case scenarioOfMatch caps (length scenarios) of
               None \<Rightarrow> scenarios
             | Some scenario \<Rightarrow> scenarios @ [scenario]))"
  by pat_completeness auto
termination
  by (relation "measure (\<lambda>(lastIndex, cs, scenarios). length cs)")
     (auto dest: scenarioPattern_progress)

declare parseLoop.simps [simp del]

text \<open>
  \<open>/When\s+(.+?)(?:\n(?:And|But)\s+(.+?))*\nThen\s+(.+?)(?:\n(?:And|But)\s+(.+?))*\<close>
  \<open>(?=\n\n|\nWhen\s+|$)/gis\<close> and the separator \<open>/\n(?:And|But)\s+/\<close> of the two \<open>split\<close> calls.
\<close>

definition whenThenPattern :: regex where
  "whenThenPattern = seqs [
     lit ''When'',
     plus True (Chr Space),
     Group 1 (plus False (Chr Dot)),
     Star True (seqs [lineFeed, alts [lit ''And'', lit ''But''], plus True (Chr Space),
                      Group 2 (plus False (Chr Dot))]),
     lineFeed,
     lit ''Then'',
     plus True (Chr Space),
     Group 3 (plus False (Chr Dot)),
     Star True (seqs [lineFeed, alts [lit ''And'', lit ''But''], plus True (Chr Space),
                      Group 4 (plus False (Chr Dot))]),
     Look True (alts [Seq lineFeed lineFeed,
                      seqs [lineFeed, lit ''When'', plus True (Chr Space)],
                      Eol])]"

definition andButSeparator :: regex where
  "andButSeparator = seqs [lineFeed, alts [lit ''And'', lit ''But''], plus True (Chr Space)]"

text \<open>\<open>if (match[n]) steps.push(match[n].trim())\<close>, for the groups 1 and 3.\<close>

definition pushGroup :: "string option \<Rightarrow> string list" where
  "pushGroup g = (case g of None \<Rightarrow> [] | Some t \<Rightarrow> if t = [] then [] else [trim t])"

text \<open>The same for the groups 2 and 4, which are split at the separator first.\<close>

definition pushAndSteps :: "string option \<Rightarrow> string list" where
  "pushAndSteps g =
     (case g of
        None \<Rightarrow> []
      | Some t \<Rightarrow>
          if t = [] then []
          else map trim (filter (\<lambda>s. trim s \<noteq> []) (splitRe flagsNone andButSeparator t)))"

lemma whenThenPattern_progress:
  assumes "execFrom f whenThenPattern i cs = Some (start, e, cs', caps)"
  shows "length cs' < length cs"
proof -
  obtain a b where "whenThenPattern = Seq (Seq (Chr (Lit CHR ''W'')) a) b"
    by (simp add: whenThenPattern_def)
  with assms execFrom_first_char [of f "Lit CHR ''W''" a b i cs start "(e, cs', caps)"]
  show ?thesis by (simp add: remaining_def)
qed

text \<open>The steps collected from the groups of one match of the fallback pattern.\<close>

definition fallbackSteps :: "captures \<Rightarrow> string list" where
  "fallbackSteps caps =
     pushGroup (capture caps 1) @ pushAndSteps (capture caps 2) @
     pushGroup (capture caps 3) @ pushAndSteps (capture caps 4)"

text \<open>The loop of \<open>parseFallbackScenarios\<close>, with its counter \<open>scenarioIndex\<close>.\<close>

function fallbackLoop :: "nat \<Rightarrow> string \<Rightarrow> nat \<Rightarrow> ParsedScenario list \<Rightarrow> ParsedScenario list" where
  "fallbackLoop lastIndex cs scenarioIndex scenarios =
     (case execFrom flagsGIS whenThenPattern lastIndex cs of
        None \<Rightarrow> scenarios
      | Some (start, e, cs', caps) \<Rightarrow>
          if length (fallbackSteps caps) > 0
          then fallbackLoop e cs' (scenarioIndex + 1)
                 (scenarios @
                    [\<lparr>name = ''Scenario '' @ showNat scenarioIndex,
                      steps = fallbackSteps caps,
                      expectedResult = last (fallbackSteps caps)\<rparr>])
          else fallbackLoop e cs' scenarioIndex scenarios)"
  by pat_completeness auto
termination
  by (relation "measure (\<lambda>(lastIndex, cs, scenarioIndex, scenarios). length cs)")
     (auto dest: whenThenPattern_progress)

declare fallbackLoop.simps [simp del]

definition parseFallbackScenarios :: "string \<Rightarrow> ParsedScenario list" where
  "parseFallbackScenarios description = fallbackLoop 0 description 1 []"

definition parseScenarios :: "string \<Rightarrow> ParsedScenario list" where
  "parseScenarios description =
     (if description = [] \<or> length (trim description) = 0 then []
      else
        (let scenarios = parseLoop 0 description []
         in if length scenarios = 0 then scenarios @ parseFallbackScenarios description
            else scenarios))"

section \<open>The collaborators (jira/jiraClient.ts, testrail/testrailClient.ts)\<close>

record JiraTicket =
  ticket_key :: string
  ticket_summary :: string
  ticket_description :: string
  ticket_url :: string

record TestRailStep =
  step_content :: string
  step_expected :: string

record TestRailTestCase =
  tc_title :: string
  tc_section_id :: int
  tc_preconds :: string
  tc_refs :: string
  tc_steps :: "TestRailStep list"
  tc_expected :: string

record TestRailTestCaseResponse =
  resp_id :: int
  resp_title :: string
  resp_section_id :: int
  resp_refs :: "string option"

record TestRailSection =
  sec_id :: int
  sec_name :: string
  sec_suite_id :: int
  sec_parent_id :: "int option"

record TestRailSuite =
  suite_id :: int
  suite_name :: string

text \<open>
  The two clients are outside the model. What the run asks of them is recorded as a list of
  calls, in order, and what they answer is a parameter: each method is a function of the calls
  made so far and of its arguments, and answers with a value or with the message of the error it
  throws. Nothing is assumed about the answers.
\<close>

datatype call =
    FetchTicket string
  | FindSuiteByName int string
  | GetSuites int
  | CreateSuite int string
  | GetSections int int
  | GetSection int
  | CreateSection int int string "int option"
  | GetTestCases int int "int option"
  | CreateTestCase int TestRailTestCase
  | UpdateTestCase int TestRailTestCase
  | DeleteTestCase int

record collaborators =
  fetchTicket :: "call list \<Rightarrow> string \<Rightarrow> string + JiraTicket"
  findSuiteByName :: "call list \<Rightarrow> int \<Rightarrow> string \<Rightarrow> string + TestRailSuite option"
  getSuites :: "call list \<Rightarrow> int \<Rightarrow> string + TestRailSuite list"
  createSuite :: "call list \<Rightarrow> int \<Rightarrow> string \<Rightarrow> string + TestRailSuite"
  getSections :: "call list \<Rightarrow> int \<Rightarrow> int \<Rightarrow> string + TestRailSection list"
  getSection :: "call list \<Rightarrow> int \<Rightarrow> string + TestRailSection"
  createSection :: "call list \<Rightarrow> int \<Rightarrow> int \<Rightarrow> string \<Rightarrow> int option \<Rightarrow> string + TestRailSection"
  getTestCases :: "call list \<Rightarrow> int \<Rightarrow> int \<Rightarrow> int option \<Rightarrow> string + TestRailTestCaseResponse list"
  createTestCase :: "call list \<Rightarrow> int \<Rightarrow> TestRailTestCase \<Rightarrow> string + TestRailTestCaseResponse"
  updateTestCase :: "call list \<Rightarrow> int \<Rightarrow> TestRailTestCase \<Rightarrow> string + TestRailTestCaseResponse"
  deleteTestCase :: "call list \<Rightarrow> int \<Rightarrow> string + unit"

text \<open>The calls that change the store.\<close>

fun mutating :: "call \<Rightarrow> bool" where
  "mutating (CreateSuite p n) = True"
| "mutating (CreateSection p s n q) = True"
| "mutating (CreateTestCase s t) = True"
| "mutating (UpdateTestCase i t) = True"
| "mutating (DeleteTestCase i) = True"
| "mutating (FetchTicket k) = False"
| "mutating (FindSuiteByName p n) = False"
| "mutating (GetSuites p) = False"
| "mutating (GetSections p s) = False"
| "mutating (GetSection i) = False"
| "mutating (GetTestCases p s q) = False"

text \<open>
  A step of the run takes the calls made so far and gives a value or the message of a thrown
  error, with the calls made by then.
\<close>

type_synonym 'a io = "call list \<Rightarrow> (string + 'a) \<times> call list"

definition returnIO :: "'a \<Rightarrow> 'a io" where
  "returnIO x = (\<lambda>h. (Inr x, h))"

definition throwIO :: "string \<Rightarrow> 'a io" where
  "throwIO message = (\<lambda>h. (Inl message, h))"

definition bindIO :: "'a io \<Rightarrow> ('a \<Rightarrow> 'b io) \<Rightarrow> 'b io" where
  "bindIO act f = (\<lambda>h. case act h of (Inl message, h') \<Rightarrow> (Inl message, h') | (Inr x, h') \<Rightarrow> f x h')"

definition callIO :: "(call list \<Rightarrow> string + 'a) \<Rightarrow> call \<Rightarrow> 'a io" where
  "callIO answer c = (\<lambda>h. (answer h, h @ [c]))"

section \<open>The sync run (sync/syncService.ts)\<close>

record SyncResult =
  jiraTicket :: JiraTicket
  scenariosFound :: nat
  scenariosCreated :: nat
  scenariosUpdated :: nat
  scenariosDeleted :: nat
  scenariosSkipped :: nat
  testCaseIds :: "int list"
  errors :: "string list"

text \<open>Truthiness of an optional number and of an optional string; \<open>x || undefined\<close> on a number.\<close>

definition truthy :: "int option \<Rightarrow> bool" where
  "truthy x = (case x of None \<Rightarrow> False | Some n \<Rightarrow> n \<noteq> 0)"

definition truthyStr :: "string option \<Rightarrow> bool" where
  "truthyStr x = (case x of None \<Rightarrow> False | Some t \<Rightarrow> t \<noteq> [])"

definition orUndefined :: "int option \<Rightarrow> int option" where
  "orUndefined x = (if truthy x then x else None)"

definition dq :: string where
  "dq = [CHR 0x22]"

definition quoted :: "string \<Rightarrow> string" where
  "quoted t = dq @ t @ dq"

subsection \<open>Step 0: the suite\<close>

definition describeSuite :: "TestRailSuite \<Rightarrow> string" where
  "describeSuite u = quoted (suite_name u) @ '' (ID: '' @ showInt (suite_id u) @ '')''"

definition suiteNotFound :: "string \<Rightarrow> int \<Rightarrow> string" where
  "suiteNotFound suiteName projectId =
     ''Suite '' @ quoted suiteName @ '' not found in project '' @ showInt projectId @ ''.''"

definition resolveSuite :: "collaborators \<Rightarrow> int \<Rightarrow> int option \<Rightarrow> string option \<Rightarrow> bool \<Rightarrow> bool
    \<Rightarrow> int option io" where
  "resolveSuite env projectId testrailSuiteId suiteName dryRun createSuiteIfMissing =
     (case suiteName of
        None \<Rightarrow> returnIO testrailSuiteId
      | Some sName \<Rightarrow>
          if sName \<noteq> [] \<and> \<not> truthy testrailSuiteId then
            bindIO (callIO (\<lambda>h. findSuiteByName env h projectId sName) (FindSuiteByName projectId sName))
              (\<lambda>existingSuite.
                 case existingSuite of
                   Some u \<Rightarrow> returnIO (Some (suite_id u))
                 | None \<Rightarrow>
                     if createSuiteIfMissing then
                       (if dryRun then returnIO testrailSuiteId
                        else bindIO (callIO (\<lambda>h. createSuite env h projectId sName) (CreateSuite projectId sName))
                               (\<lambda>newSuite. returnIO (Some (suite_id newSuite))))
                     else
                       (\<lambda>h. case getSuites env h projectId of
                               Inr availableSuites \<Rightarrow>
                                 (Inl (if join '', '' (map describeSuite availableSuites) \<noteq> []
                                       then suiteNotFound sName projectId @ [CHR 0x0A] @
                                            ''Available suites: '' @
                                            join '', '' (map describeSuite availableSuites) @ [CHR 0x0A] @
                                            ''Use --create-suite to create it automatically.''
                                       else suiteNotFound sName projectId @ [CHR 0x0A] @
                                            ''No suites found in project. Use --create-suite to create it automatically.''),
                                  h @ [GetSuites projectId])
                             | Inl message \<Rightarrow>
                                 (Inl (if includesStr message ''not found'' then message
                                       else suiteNotFound sName projectId @
                                            '' Use --create-suite to create it automatically.''),
                                  h @ [GetSuites projectId])))
          else returnIO testrailSuiteId)"

subsection \<open>The section\<close>

definition noParent :: "TestRailSection \<Rightarrow> bool" where
  "noParent s = (\<not> truthy (sec_parent_id s))"

definition underParent :: "int option \<Rightarrow> TestRailSection \<Rightarrow> bool" where
  "underParent currentParentId s =
     (case currentParentId of None \<Rightarrow> noParent s | Some p \<Rightarrow> sec_parent_id s = Some p)"

definition describeSection :: "TestRailSection \<Rightarrow> string" where
  "describeSection s = quoted (sec_name s) @ '' (ID: '' @ showInt (sec_id s) @ '')''"

definition describeSectionWithParent :: "TestRailSection \<Rightarrow> string" where
  "describeSectionWithParent s =
     describeSection s @
     (case sec_parent_id s of
        None \<Rightarrow> []
      | Some p \<Rightarrow> if p \<noteq> 0 then '' (under section ID '' @ showInt p @ '')'' else [])"

text \<open>\<open>path.split('/').map(part => part.trim()).filter(part => part.length > 0)\<close>\<close>

definition pathParts :: "string \<Rightarrow> string list" where
  "pathParts path = filter (\<lambda>part. length part > 0) (map trim (split (CHR ''/'') path))"

text \<open>\<open>sectionName.split('/').pop() || sectionName\<close>\<close>

definition lastSegment :: "string \<Rightarrow> string" where
  "lastSegment sectionName =
     (if last (split (CHR ''/'') sectionName) \<noteq> [] then last (split (CHR ''/'') sectionName)
      else sectionName)"

text \<open>
  \<open>createSectionHierarchy\<close>. \<open>createPath\<close> is its loop over the parts of the path that are left;
  the array \<open>existingSections\<close>, which the loop extends, is returned with the section.
\<close>

definition wouldBeCreated :: "string \<Rightarrow> int option \<Rightarrow> string list \<Rightarrow> string" where
  "wouldBeCreated partName currentParentId pathTraversed =
     ''[DRY RUN] Section '' @ quoted partName @ '' would be created '' @
     (if truthy currentParentId then ''under '' @ quoted (join ''/'' pathTraversed) else ''at top level'') @
     ''. Run without --dry-run to create it.''"

fun createPath :: "collaborators \<Rightarrow> int \<Rightarrow> int \<Rightarrow> string \<Rightarrow> bool \<Rightarrow> string list \<Rightarrow> int option \<Rightarrow> string list
    \<Rightarrow> TestRailSection list \<Rightarrow> (TestRailSection \<times> TestRailSection list) io" where
  "createPath env projectId suiteId sectionPath dryRun [] currentParentId pathTraversed existingSections =
     throwIO (''Failed to create section hierarchy for '' @ quoted sectionPath)"
| "createPath env projectId suiteId sectionPath dryRun (partName # later) currentParentId pathTraversed
       existingSections =
     bindIO
       (case find (\<lambda>s. trim (toLowerCase (sec_name s)) = trim (toLowerCase partName) \<and>
                        underParent currentParentId s) existingSections of
          Some existingSection \<Rightarrow>
            returnIO (sec_id existingSection, pathTraversed @ [sec_name existingSection], existingSections)
        | None \<Rightarrow>
            if dryRun then throwIO (wouldBeCreated partName currentParentId pathTraversed)
            else bindIO (callIO (\<lambda>h. createSection env h projectId suiteId partName currentParentId)
                                (CreateSection projectId suiteId partName currentParentId))
                   (\<lambda>newSection.
                      returnIO (sec_id newSection, pathTraversed @ [sec_name newSection],
                                existingSections @ [newSection])))
       (\<lambda>(parentId, traversed, sections).
          if later = [] then
            (case find (\<lambda>s. sec_id s = parentId) sections of
               Some finalSection \<Rightarrow> returnIO (finalSection, sections)
             | None \<Rightarrow> throwIO (''Failed to create or find section '' @ quoted sectionPath))
          else createPath env projectId suiteId sectionPath dryRun later (Some parentId) traversed sections)"

definition createSectionHierarchy :: "collaborators \<Rightarrow> int \<Rightarrow> int \<Rightarrow> string \<Rightarrow> TestRailSection list \<Rightarrow> bool
    \<Rightarrow> (TestRailSection \<times> TestRailSection list) io" where
  "createSectionHierarchy env projectId suiteId sectionPath existingSections dryRun =
     (if length (pathParts sectionPath) = 1 then
        (if dryRun then
           throwIO (''[DRY RUN] Section '' @ quoted sectionPath @
                    '' would be created. Run without --dry-run to create it.'')
         else bindIO (callIO (\<lambda>h. createSection env h projectId suiteId (hd (pathParts sectionPath)) None)
                             (CreateSection projectId suiteId (hd (pathParts sectionPath)) None))
                (\<lambda>newSection. returnIO (newSection, existingSections)))
      else createPath env projectId suiteId sectionPath dryRun (pathParts sectionPath) None []
             existingSections)"

text \<open>
  The walk along a path of several parts (the loop over \<open>nameParts\<close>). Each part comes as the
  pair of \<open>nameParts[i]\<close>, in lower case, and \<open>originalNameParts[i]\<close>; \<open>walked\<close> is
  \<open>nameParts.slice(0, i)\<close>. The loop extends \<open>sections\<close> and sets \<open>selectedSection\<close> at the last
  part.
\<close>

definition sectionNotFoundAt :: "string \<Rightarrow> int option \<Rightarrow> string list \<Rightarrow> string list \<Rightarrow> int
    \<Rightarrow> TestRailSection list \<Rightarrow> string" where
  "sectionNotFoundAt partNameOriginal currentParentId pathTraversed walked resolvedSuiteId sections =
     (let parentContext =
            (if currentParentId = None then ''top-level''
             else ''under '' @ quoted (join ''/'' pathTraversed));
          currentPath = join ''/'' walked;
          availableSections =
            join '', '' (map describeSection (filter (underParent currentParentId) sections))
      in ''Section '' @ quoted partNameOriginal @ '' not found '' @ parentContext @ '' in suite '' @
         showInt resolvedSuiteId @ ''.'' @ [CHR 0x0A] @
         ''Path: '' @ (if currentPath \<noteq> [] then currentPath @ ''/'' else []) @ partNameOriginal @
         [CHR 0x0A] @
         ''Available sections '' @ parentContext @ '': '' @
         (if availableSections \<noteq> [] then availableSections else ''None'') @ [CHR 0x0A] @
         ''Use --create-section to create missing sections automatically.'')"

fun walkSectionPath :: "collaborators \<Rightarrow> int \<Rightarrow> int \<Rightarrow> bool \<Rightarrow> bool \<Rightarrow> string list \<Rightarrow> (string \<times> string) list
    \<Rightarrow> int option \<Rightarrow> string list \<Rightarrow> TestRailSection list \<Rightarrow> TestRailSection option
    \<Rightarrow> (TestRailSection option \<times> TestRailSection list) io" where
  "walkSectionPath env projectId resolvedSuiteId createSectionIfMissing dryRun walked []
       currentParentId pathTraversed sections selectedSection =
     returnIO (selectedSection, sections)"
| "walkSectionPath env projectId resolvedSuiteId createSectionIfMissing dryRun walked
       ((partNameNormalized, partNameOriginal) # later) currentParentId pathTraversed sections
       selectedSection =
     (case find (\<lambda>s. trim (toLowerCase (sec_name s)) = partNameNormalized \<and>
                      underParent currentParentId s) sections of
        Some foundSection \<Rightarrow>
          walkSectionPath env projectId resolvedSuiteId createSectionIfMissing dryRun
            (walked @ [partNameNormalized]) later (Some (sec_id foundSection))
            (pathTraversed @ [sec_name foundSection]) sections
            (if later = [] then Some foundSection else selectedSection)
      | None \<Rightarrow>
          if createSectionIfMissing then
            (if dryRun then
               walkSectionPath env projectId resolvedSuiteId createSectionIfMissing dryRun
                 (walked @ [partNameNormalized]) later (Some (- 1))
                 (pathTraversed @ [partNameOriginal])
                 (sections @
                    [\<lparr>sec_id = - 1, sec_name = partNameOriginal, sec_suite_id = resolvedSuiteId,
                      sec_parent_id = orUndefined currentParentId\<rparr>])
                 (if later = []
                  then Some \<lparr>sec_id = - 1, sec_name = partNameOriginal, sec_suite_id = resolvedSuiteId,
                              sec_parent_id = orUndefined currentParentId\<rparr>
                  else selectedSection)
             else
               bindIO (callIO (\<lambda>h. createSection env h projectId resolvedSuiteId partNameOriginal
                                       (orUndefined currentParentId))
                              (CreateSection projectId resolvedSuiteId partNameOriginal
                                 (orUndefined currentParentId)))
                 (\<lambda>newSection.
                    walkSectionPath env projectId resolvedSuiteId createSectionIfMissing dryRun
                      (walked @ [partNameNormalized]) later (Some (sec_id newSection))
                      (pathTraversed @ [sec_name newSection]) (sections @ [newSection])
                      (if later = [] then Some newSection else selectedSection)))
          else
            throwIO (sectionNotFoundAt partNameOriginal currentParentId pathTraversed walked
                       resolvedSuiteId sections))"

text \<open>The choice of the section when a section name is given, up to \<open>if (!selectedSection)\<close>.\<close>

definition findNamedSection :: "collaborators \<Rightarrow> int \<Rightarrow> int \<Rightarrow> string \<Rightarrow> bool \<Rightarrow> bool \<Rightarrow> TestRailSection list
    \<Rightarrow> (TestRailSection option \<times> TestRailSection list) io" where
  "findNamedSection env projectId resolvedSuiteId sectionName dryRun createSectionIfMissing sections =
     (let normalizedName = trim (toLowerCase sectionName);
          originalNameParts = pathParts sectionName;
          nameParts = pathParts normalizedName
      in if length nameParts = 1 then
           returnIO
             (case find (\<lambda>s. trim (toLowerCase (sec_name s)) = normalizedName \<and> noParent s) sections of
                Some s \<Rightarrow> Some s
              | None \<Rightarrow> find (\<lambda>s. trim (toLowerCase (sec_name s)) = normalizedName) sections,
              sections)
         else walkSectionPath env projectId resolvedSuiteId createSectionIfMissing dryRun []
                (zip nameParts originalNameParts) None [] sections None)"

text \<open>The rest of that branch: a section that was not found is created, mocked, or an error.\<close>

definition selectNamedSection :: "collaborators \<Rightarrow> int \<Rightarrow> int \<Rightarrow> string \<Rightarrow> bool \<Rightarrow> bool \<Rightarrow> TestRailSection list
    \<Rightarrow> TestRailSection option io" where
  "selectNamedSection env projectId resolvedSuiteId sectionName dryRun createSectionIfMissing sections0 =
     bindIO (findNamedSection env projectId resolvedSuiteId sectionName dryRun createSectionIfMissing
               sections0)
       (\<lambda>(selectedSection, sections).
          case selectedSection of
            Some s \<Rightarrow> returnIO (Some s)
          | None \<Rightarrow>
              if createSectionIfMissing then
                (if dryRun then
                   returnIO (Some \<lparr>sec_id = - 1, sec_name = lastSegment sectionName,
                                    sec_suite_id = resolvedSuiteId, sec_parent_id = None\<rparr>)
                 else bindIO (createSectionHierarchy env projectId resolvedSuiteId sectionName sections
                                dryRun)
                        (\<lambda>(newSection, sections'). returnIO (Some newSection)))
              else
                throwIO (''Section '' @ quoted sectionName @ '' not found in suite '' @
                         showInt resolvedSuiteId @ ''.'' @ [CHR 0x0A] @
                         ''Available sections: '' @
                         join '', '' (map describeSectionWithParent sections) @ [CHR 0x0A] @
                         ''Use --create-section to create missing sections automatically.''))"

text \<open>Without a section name: \<open>sections.find(s => !s.parent_id) || sections[0]\<close>.\<close>

definition defaultSection :: "TestRailSection list \<Rightarrow> TestRailSection option" where
  "defaultSection sections =
     (case find noParent sections of
        Some s \<Rightarrow> Some s
      | None \<Rightarrow> (case sections of [] \<Rightarrow> None | s # others \<Rightarrow> Some s))"

text \<open>The number and the string behind a value that was tested to be truthy.\<close>

definition numberOf :: "int option \<Rightarrow> int" where
  "numberOf x = (case x of Some n \<Rightarrow> n | None \<Rightarrow> 0)"

definition stringOf :: "string option \<Rightarrow> string" where
  "stringOf x = (case x of Some t \<Rightarrow> t | None \<Rightarrow> [])"

text \<open>The branch \<open>if (resolvedSuiteId)\<close>: the section of a known suite.\<close>

definition resolveSectionInSuite :: "collaborators \<Rightarrow> int \<Rightarrow> int \<Rightarrow> string option \<Rightarrow> bool \<Rightarrow> bool \<Rightarrow> int io" where
  "resolveSectionInSuite env projectId resolvedSuiteId sectionName dryRun createSectionIfMissing =
     bindIO (callIO (\<lambda>h. getSections env h projectId resolvedSuiteId) (GetSections projectId resolvedSuiteId))
       (\<lambda>fetched.
          bindIO
            (if length fetched = 0 then
               (if createSectionIfMissing \<and> truthyStr sectionName then
                  (if dryRun then returnIO (Some (- 1), fetched)
                   else bindIO (createSectionHierarchy env projectId resolvedSuiteId (stringOf sectionName)
                                  fetched dryRun)
                          (\<lambda>(newSection, sections). returnIO (Some (sec_id newSection), sections)))
                else
                  throwIO (''No sections found in suite '' @ showInt resolvedSuiteId @ ''. '' @
                           ''Please create a section first or use --create-section with --section-name to create it automatically.''))
             else returnIO (None, fetched))
            (\<lambda>(created, sections).
               bindIO
                 (if \<not> truthy created then
                    bindIO
                      (if truthyStr sectionName then
                         selectNamedSection env projectId resolvedSuiteId (stringOf sectionName)
                           dryRun createSectionIfMissing sections
                       else returnIO (defaultSection sections))
                      (\<lambda>selectedSection.
                         returnIO (case selectedSection of Some s \<Rightarrow> Some (sec_id s) | None \<Rightarrow> created))
                  else returnIO created)
                 (\<lambda>sectionId.
                    if \<not> truthy sectionId
                    then throwIO ''Failed to resolve section ID. This should not happen.''
                    else returnIO (numberOf sectionId))))"

text \<open>
  The whole resolution of the section: the section id, and the suite id passed on to the listing
  of the cases. With a section id only, the suite is looked up and a failure of the lookup is
  ignored.
\<close>

definition resolveSection :: "collaborators \<Rightarrow> int \<Rightarrow> int option \<Rightarrow> int option \<Rightarrow> int option \<Rightarrow> string option
    \<Rightarrow> bool \<Rightarrow> bool \<Rightarrow> (int \<times> int option) io" where
  "resolveSection env projectId resolvedSuiteId testrailSuiteId testrailSectionId sectionName dryRun
       createSectionIfMissing =
     (if truthy resolvedSuiteId then
        bindIO (resolveSectionInSuite env projectId (numberOf resolvedSuiteId) sectionName dryRun
                  createSectionIfMissing)
          (\<lambda>sectionId. returnIO (sectionId, resolvedSuiteId))
      else if truthy testrailSectionId then
        (\<lambda>h. case getSection env h (numberOf testrailSectionId) of
                Inr sectionDetails \<Rightarrow>
                  (Inr (numberOf testrailSectionId,
                        if sec_suite_id sectionDetails \<noteq> 0 then Some (sec_suite_id sectionDetails)
                        else testrailSuiteId),
                   h @ [GetSection (numberOf testrailSectionId)])
              | Inl message \<Rightarrow>
                  (Inr (numberOf testrailSectionId, testrailSuiteId),
                   h @ [GetSection (numberOf testrailSectionId)]))
      else throwIO ''Either suite ID, suite name, or section ID must be provided'')"

subsection \<open>Steps 3 to 5: the cases\<close>

text \<open>The cases of the section that belong to the ticket: \<open>(tc.refs || '').toString().includes(jiraKey)\<close>.\<close>

definition refsOf :: "TestRailTestCaseResponse \<Rightarrow> string" where
  "refsOf tc = (case resp_refs tc of None \<Rightarrow> [] | Some r \<Rightarrow> r)"

definition jiraTicketTestCases :: "string \<Rightarrow> TestRailTestCaseResponse list \<Rightarrow> TestRailTestCaseResponse list" where
  "jiraTicketTestCases jiraKey existingTestCases =
     filter (\<lambda>tc. includesStr (refsOf tc) jiraKey) existingTestCases"

text \<open>\<open>title.toLowerCase().trim()\<close>, the key of the title lookup.\<close>

definition normalizedTitle :: "string \<Rightarrow> string" where
  "normalizedTitle t = trim (toLowerCase t)"

text \<open>The \<open>Map\<close> filled by \<open>forEach\<close> and \<open>set\<close>, in the order of the list.\<close>

definition existingCasesMap :: "TestRailTestCaseResponse list \<Rightarrow> (string \<rightharpoonup> TestRailTestCaseResponse)" where
  "existingCasesMap cases = fold (\<lambda>tc m. m(normalizedTitle (resp_title tc) \<mapsto> tc)) cases Map.empty"

definition jiraScenarioTitles :: "ParsedScenario list \<Rightarrow> string set" where
  "jiraScenarioTitles scenarios = set (map (\<lambda>scenario. normalizedTitle (name scenario)) scenarios)"

text \<open>
  The search for the last step that starts with \<open>then\<close> or \<open>and then\<close>: the loop
  \<open>for (let i = steps.length - 1; i >= 0; i--)\<close>, with \<open>n\<close> one more than the index it looks at
  next; the result is the index, or \<open>-1\<close>.
\<close>

definition isThenStep :: "string \<Rightarrow> bool" where
  "isThenStep step = (test flagsGI thenPattern step \<or> test flagsGI andThenPattern step)"

fun lastThenBelow :: "string list \<Rightarrow> nat \<Rightarrow> int" where
  "lastThenBelow stepList 0 = - 1"
| "lastThenBelow stepList (Suc i) =
     (if isThenStep (stepList ! i) then int i else lastThenBelow stepList i)"

definition lastThenIndex :: "string list \<Rightarrow> int" where
  "lastThenIndex stepList = lastThenBelow stepList (length stepList)"

text \<open>\<open>convertStepsToTestRailFormat\<close>\<close>

definition convertStepsToTestRailFormat :: "ParsedScenario \<Rightarrow> TestRailStep list" where
  "convertStepsToTestRailFormat scenario =
     (if lastThenIndex (steps scenario) = - 1
      then map (\<lambda>step. \<lparr>step_content = step, step_expected = []\<rparr>) (steps scenario)
      else map (\<lambda>step. \<lparr>step_content = step, step_expected = []\<rparr>)
             (take (nat (lastThenIndex (steps scenario))) (steps scenario)))"

text \<open>The payload of a scenario (\<open>const testCase: TestRailTestCase = ...\<close> and the lines before it).\<close>

definition expectedResultParts :: "ParsedScenario \<Rightarrow> string list" where
  "expectedResultParts scenario =
     (if lastThenIndex (steps scenario) \<ge> 0
      then drop (nat (lastThenIndex (steps scenario))) (steps scenario)
      else [])"

definition testCasePayload :: "ParsedScenario \<Rightarrow> int \<Rightarrow> JiraTicket \<Rightarrow> TestRailTestCase" where
  "testCasePayload scenario sectionId ticket =
     \<lparr>tc_title = name scenario,
      tc_section_id = sectionId,
      tc_preconds = ''Jira Ticket: '' @ ticket_key ticket @ [CHR 0x0A] @ ticket_url ticket,
      tc_refs = ticket_key ticket,
      tc_steps = convertStepsToTestRailFormat scenario,
      tc_expected =
        (if length (expectedResultParts scenario) > 0
         then join [CHR 0x0A] (expectedResultParts scenario)
         else expectedResult scenario)\<rparr>"

text \<open>
  One round of the loop over the scenarios, on the summary and the calls made so far. An error
  thrown by the client is caught in the round.
\<close>

definition syncScenario :: "collaborators \<Rightarrow> bool \<Rightarrow> int \<Rightarrow> JiraTicket
    \<Rightarrow> (string \<rightharpoonup> TestRailTestCaseResponse) \<Rightarrow> ParsedScenario
    \<Rightarrow> SyncResult \<times> call list \<Rightarrow> SyncResult \<times> call list" where
  "syncScenario env dryRun sectionId ticket casesMap scenario st =
     (case st of (result, h) \<Rightarrow>
        (let testCase = testCasePayload scenario sectionId ticket
         in case casesMap (normalizedTitle (name scenario)) of
              Some existingCase \<Rightarrow>
                if dryRun then (result\<lparr>scenariosUpdated := scenariosUpdated result + 1\<rparr>, h)
                else
                  (case updateTestCase env h (resp_id existingCase) testCase of
                     Inr updatedCase \<Rightarrow>
                       (result\<lparr>testCaseIds := testCaseIds result @ [resp_id updatedCase],
                               scenariosUpdated := scenariosUpdated result + 1\<rparr>,
                        h @ [UpdateTestCase (resp_id existingCase) testCase])
                   | Inl message \<Rightarrow>
                       (result\<lparr>errors := errors result @
                                 [''Failed to sync scenario '' @ quoted (name scenario) @ '': '' @ message],
                               scenariosSkipped := scenariosSkipped result + 1\<rparr>,
                        h @ [UpdateTestCase (resp_id existingCase) testCase]))
            | None \<Rightarrow>
                if dryRun then (result\<lparr>scenariosCreated := scenariosCreated result + 1\<rparr>, h)
                else
                  (case createTestCase env h sectionId testCase of
                     Inr newCase \<Rightarrow>
                       (result\<lparr>testCaseIds := testCaseIds result @ [resp_id newCase],
                               scenariosCreated := scenariosCreated result + 1\<rparr>,
                        h @ [CreateTestCase sectionId testCase])
                   | Inl message \<Rightarrow>
                       (result\<lparr>errors := errors result @
                                 [''Failed to sync scenario '' @ quoted (name scenario) @ '': '' @ message],
                               scenariosSkipped := scenariosSkipped result + 1\<rparr>,
                        h @ [CreateTestCase sectionId testCase]))))"

text \<open>Step 5: the cases of the ticket whose title is the title of no scenario.\<close>

definition testCasesToDelete :: "string \<Rightarrow> TestRailTestCaseResponse list \<Rightarrow> ParsedScenario list
    \<Rightarrow> TestRailTestCaseResponse list" where
  "testCasesToDelete jiraKey existingTestCases scenarios =
     filter (\<lambda>testCase. normalizedTitle (resp_title testCase) \<notin> jiraScenarioTitles scenarios)
       (jiraTicketTestCases jiraKey existingTestCases)"

definition deleteCase :: "collaborators \<Rightarrow> bool \<Rightarrow> TestRailTestCaseResponse
    \<Rightarrow> SyncResult \<times> call list \<Rightarrow> SyncResult \<times> call list" where
  "deleteCase env dryRun testCase st =
     (case st of (result, h) \<Rightarrow>
        if dryRun then (result\<lparr>scenariosDeleted := scenariosDeleted result + 1\<rparr>, h)
        else
          (case deleteTestCase env h (resp_id testCase) of
             Inr done \<Rightarrow>
               (result\<lparr>scenariosDeleted := scenariosDeleted result + 1\<rparr>,
                h @ [DeleteTestCase (resp_id testCase)])
           | Inl message \<Rightarrow>
               (result\<lparr>errors := errors result @
                         [''Failed to delete test case '' @ quoted (resp_title testCase) @ '' (ID: '' @
                          showInt (resp_id testCase) @ ''): '' @ message],
                       scenariosSkipped := scenariosSkipped result + 1\<rparr>,
                h @ [DeleteTestCase (resp_id testCase)])))"

text \<open>Steps 4 and 5 together: both loops, in the order of the scenarios and of the fetched cases.\<close>

definition syncCases :: "collaborators \<Rightarrow> bool \<Rightarrow> string \<Rightarrow> int \<Rightarrow> JiraTicket \<Rightarrow> ParsedScenario list
    \<Rightarrow> TestRailTestCaseResponse list \<Rightarrow> SyncResult \<times> call list \<Rightarrow> SyncResult \<times> call list" where
  "syncCases env dryRun jiraKey sectionId ticket scenarios existingTestCases st =
     fold (deleteCase env dryRun) (testCasesToDelete jiraKey existingTestCases scenarios)
       (fold (syncScenario env dryRun sectionId ticket
                (existingCasesMap (jiraTicketTestCases jiraKey existingTestCases)))
          scenarios st)"

subsection \<open>The run\<close>

definition emptyResult :: "JiraTicket \<Rightarrow> nat \<Rightarrow> SyncResult" where
  "emptyResult ticket found =
     \<lparr>jiraTicket = ticket, scenariosFound = found, scenariosCreated = 0, scenariosUpdated = 0,
      scenariosDeleted = 0, scenariosSkipped = 0, testCaseIds = [], errors = []\<rparr>"

text \<open>
  \<open>syncTicketToTestRail\<close>. An error thrown before step 4 leaves the function (the outer \<open>catch\<close>
  throws it again), and the run has no summary then.
\<close>

definition syncTicketToTestRail :: "collaborators \<Rightarrow> string \<Rightarrow> int \<Rightarrow> int option \<Rightarrow> int option \<Rightarrow> string option
    \<Rightarrow> bool \<Rightarrow> string option \<Rightarrow> bool \<Rightarrow> bool \<Rightarrow> SyncResult io" where
  "syncTicketToTestRail env jiraKey testrailProjectId testrailSuiteId testrailSectionId sectionName
       dryRun suiteName createSuiteIfMissing createSectionIfMissing =
     bindIO (resolveSuite env testrailProjectId testrailSuiteId suiteName dryRun createSuiteIfMissing)
       (\<lambda>resolvedSuiteId.
          bindIO (resolveSection env testrailProjectId resolvedSuiteId testrailSuiteId testrailSectionId
                    sectionName dryRun createSectionIfMissing)
            (\<lambda>(sectionId, suiteId).
               bindIO (callIO (\<lambda>h. fetchTicket env h jiraKey) (FetchTicket jiraKey))
                 (\<lambda>ticket.
                    if length (parseScenarios (ticket_description ticket)) = 0
                    then returnIO (emptyResult ticket 0)
                    else
                      bindIO
                        (if dryRun \<and> sectionId = - 1 then returnIO []
                         else callIO (\<lambda>h. getTestCases env h testrailProjectId sectionId (orUndefined suiteId))
                                (GetTestCases testrailProjectId sectionId (orUndefined suiteId)))
                        (\<lambda>existingTestCases h.
                           case syncCases env dryRun jiraKey sectionId ticket
                                  (parseScenarios (ticket_description ticket)) existingTestCases
                                  (emptyResult ticket (length (parseScenarios (ticket_description ticket))), h)
                           of (result, h') \<Rightarrow> (Inr result, h')))))"

section \<open>The specification's side\<close>

text \<open>
  The definitions of this section are not taken from the source. They say, in the words of the
  specification, what the run is expected to do, and the theorems below compare the run with
  them.
\<close>

text \<open>
  The two patterns as the specification writes them, \<open>^then\s\<close> and \<open>^and\s+then\s\<close>, to be
  compared with \<open>thenPattern\<close> and \<open>andThenPattern\<close> of the source, which end in \<open>\s+\<close>.
\<close>

definition thenPrefix :: regex where
  "thenPrefix = seqs [Bol, lit ''then'', Chr Space]"

definition andThenPrefix :: regex where
  "andThenPrefix = seqs [Bol, lit ''and'', plus True (Chr Space), lit ''then'', Chr Space]"

text \<open>
  The action plan of the specification (section 4.2): one action for each parsed scenario, in the
  order of the text, then one deletion for each case of the ticket whose title no scenario bears,
  in the order of the fetched cases. The call of a scenario's action is an update of the case
  found under the scenario's normalized name, or a creation in the section when there is none.
\<close>

datatype action = SyncScenario ParsedScenario | DeleteCase TestRailTestCaseResponse

definition plannedActions :: "string \<Rightarrow> ParsedScenario list \<Rightarrow> TestRailTestCaseResponse list \<Rightarrow> action list" where
  "plannedActions jiraKey scenarios existingTestCases =
     map SyncScenario scenarios @ map DeleteCase (testCasesToDelete jiraKey existingTestCases scenarios)"

fun callOf :: "int \<Rightarrow> JiraTicket \<Rightarrow> (string \<rightharpoonup> TestRailTestCaseResponse) \<Rightarrow> action \<Rightarrow> call" where
  "callOf sectionId ticket casesMap (SyncScenario scenario) =
     (case casesMap (normalizedTitle (name scenario)) of
        Some existingCase \<Rightarrow> UpdateTestCase (resp_id existingCase) (testCasePayload scenario sectionId ticket)
      | None \<Rightarrow> CreateTestCase sectionId (testCasePayload scenario sectionId ticket))"
| "callOf sectionId ticket casesMap (DeleteCase testCase) = DeleteTestCase (resp_id testCase)"

fun thrownBy :: "collaborators \<Rightarrow> call list \<Rightarrow> call \<Rightarrow> string option" where
  "thrownBy env h (CreateTestCase s t) = (case createTestCase env h s t of Inl message \<Rightarrow> Some message | Inr r \<Rightarrow> None)"
| "thrownBy env h (UpdateTestCase i t) = (case updateTestCase env h i t of Inl message \<Rightarrow> Some message | Inr r \<Rightarrow> None)"
| "thrownBy env h (DeleteTestCase i) = (case deleteTestCase env h i of Inl message \<Rightarrow> Some message | Inr r \<Rightarrow> None)"
| "thrownBy env h c = None"

fun failureMessage :: "action \<Rightarrow> string \<Rightarrow> string" where
  "failureMessage (SyncScenario scenario) message =
     ''Failed to sync scenario '' @ quoted (name scenario) @ '': '' @ message"
| "failureMessage (DeleteCase testCase) message =
     ''Failed to delete test case '' @ quoted (resp_title testCase) @ '' (ID: '' @
     showInt (resp_id testCase) @ ''): '' @ message"

fun failuresOf :: "collaborators \<Rightarrow> (action \<Rightarrow> call) \<Rightarrow> call list \<Rightarrow> action list \<Rightarrow> string list" where
  "failuresOf env toCall h [] = []"
| "failuresOf env toCall h (a # later) =
     (case thrownBy env h (toCall a) of Some message \<Rightarrow> [failureMessage a message] | None \<Rightarrow> []) @
     failuresOf env toCall (h @ [toCall a]) later"

definition succeeded :: "SyncResult \<Rightarrow> nat" where
  "succeeded result = scenariosCreated result + scenariosUpdated result + scenariosDeleted result"

text \<open>
  \<open>accounted\<close> relates the state before and after a list of actions carried out for real: every
  action was called, in order; the error list grew by the messages of the actions whose call
  threw, in order; the skipped counter grew by their number; every other action was counted as
  created, updated or deleted. \<open>simulated\<close> is the same for a dry run of \<open>n\<close> actions: no call, no
  error, \<open>n\<close> actions counted.
\<close>

definition accounted :: "collaborators \<Rightarrow> (action \<Rightarrow> call) \<Rightarrow> action list
    \<Rightarrow> SyncResult \<times> call list \<Rightarrow> SyncResult \<times> call list \<Rightarrow> bool" where
  "accounted env toCall actions before after =
     (case before of (r, h) \<Rightarrow> case after of (r', h') \<Rightarrow>
        h' = h @ map toCall actions \<and>
        errors r' = errors r @ failuresOf env toCall h actions \<and>
        scenariosSkipped r' = scenariosSkipped r + length (failuresOf env toCall h actions) \<and>
        succeeded r' + length (failuresOf env toCall h actions) = succeeded r + length actions)"

definition simulated :: "nat \<Rightarrow> SyncResult \<times> call list \<Rightarrow> SyncResult \<times> call list \<Rightarrow> bool" where
  "simulated n before after =
     (case before of (r, h) \<Rightarrow> case after of (r', h') \<Rightarrow>
        h' = h \<and> errors r' = errors r \<and> scenariosSkipped r' = scenariosSkipped r \<and>
        succeeded r' = succeeded r + n)"

text \<open>
  The number of parts of a path, counted without splitting it: a part counts when it has a
  character that is not white space.
\<close>

fun countParts :: "bool \<Rightarrow> string \<Rightarrow> nat" where
  "countParts seen [] = (if seen then 1 else 0)"
| "countParts seen (c # cs) =
     (if c = CHR ''/'' then (if seen then 1 else 0) + countParts False cs
      else countParts (seen \<or> \<not> isSpace c) cs)"

text \<open>
  A step of the run that only reads: whatever calls were made before, it adds calls to them and
  none of the calls it adds changes the store.
\<close>

definition quiet :: "'a io \<Rightarrow> bool" where
  "quiet act = (\<forall>h. \<exists>calls. snd (act h) = h @ calls \<and> (\<forall>c\<in>set calls. \<not> mutating c))"

section \<open>Sample data\<close>

definition format1Description :: string where
  "format1Description =
     ''Scenario 1: User login\<newline>When user enters valid credentials\<newline>And clicks login button\<newline>Then user is logged in\<newline>And redirected to dashboard''"

definition format1Scenario :: ParsedScenario where
  "format1Scenario =
     \<lparr>name = ''User login'',
      steps = [''When user enters valid credentials'', ''And clicks login button'',
               ''Then user is logged in'', ''And redirected to dashboard''],
      expectedResult = ''user is logged in''\<rparr>"

definition noMarkerDescription :: string where
  "noMarkerDescription = ''When user enters invalid credentials\<newline>Then error message is displayed''"

definition noMarkerScenario :: ParsedScenario where
  "noMarkerScenario =
     \<lparr>name = ''Scenario 1'',
      steps = [''user enters invalid credentials'', ''error message is displayed''],
      expectedResult = ''error message is displayed''\<rparr>"

definition noThenDescription :: string where
  "noThenDescription = ''Scenario: Search\<newline>When user types a query\<newline>And presses enter''"

definition noThenScenario :: ParsedScenario where
  "noThenScenario =
     \<lparr>name = ''Search'', steps = [''When user types a query'', ''And presses enter''],
      expectedResult = ''presses enter''\<rparr>"

definition givenNameDescription :: string where
  "givenNameDescription = ''When a user signs up\<newline>Then given name is shown''"

definition givenNameScenario :: ParsedScenario where
  "givenNameScenario =
     \<lparr>name = ''Scenario 1'', steps = [''a user signs up'', ''given name is shown''],
      expectedResult = ''given name is shown''\<rparr>"

definition demoTicket :: JiraTicket where
  "demoTicket =
     \<lparr>ticket_key = ''PROJ-1'', ticket_summary = ''Login'', ticket_description = format1Description,
      ticket_url = ''https://jira.example/browse/PROJ-1''\<rparr>"

definition format2Description :: string where
  "format2Description =
     ''Scenario 1: Successful login\<newline>When user enters valid credentials\<newline>Then user is logged in\<newline>\<newline>Scenario 2: Failed login\<newline>When user enters invalid credentials\<newline>Then error message is displayed''"

definition loginTicket :: JiraTicket where
  "loginTicket =
     \<lparr>ticket_key = ''PROJ-1'', ticket_summary = ''Login'', ticket_description = format2Description,
      ticket_url = ''https://jira.example/browse/PROJ-1''\<rparr>"

definition storedCases :: "TestRailTestCaseResponse list" where
  "storedCases =
     [\<lparr>resp_id = 11, resp_title = ''Successful login'', resp_section_id = 102, resp_refs = Some ''PROJ-1''\<rparr>,
      \<lparr>resp_id = 12, resp_title = ''Old scenario'', resp_section_id = 102, resp_refs = Some ''PROJ-1''\<rparr>,
      \<lparr>resp_id = 13, resp_title = ''Someone else'', resp_section_id = 102, resp_refs = Some ''PROJ-2''\<rparr>]"

definition demoStore :: collaborators where
  "demoStore =
     \<lparr>fetchTicket = (\<lambda>h k. Inr loginTicket),
      findSuiteByName = (\<lambda>h p n. Inr None),
      getSuites = (\<lambda>h p. Inr []),
      createSuite = (\<lambda>h p n. Inl ''Failed to create suite: 403 Forbidden''),
      getSections = (\<lambda>h p s. Inr []),
      getSection = (\<lambda>h i. Inl ''Section not found''),
      createSection = (\<lambda>h p s n q.
         Inr \<lparr>sec_id = 100 + int (length h), sec_name = n, sec_suite_id = s, sec_parent_id = q\<rparr>),
      getTestCases = (\<lambda>h p s q. Inr storedCases),
      createTestCase = (\<lambda>h s t. Inl ''Failed to create test case: 400 Bad Request''),
      updateTestCase = (\<lambda>h i t.
         Inr \<lparr>resp_id = i, resp_title = tc_title t, resp_section_id = tc_section_id t,
              resp_refs = Some (tc_refs t)\<rparr>),
      deleteTestCase = (\<lambda>h i. Inr ())\<rparr>"

definition loginScenarios :: "ParsedScenario list" where
  "loginScenarios =
     [\<lparr>name = ''Successful login'',
       steps = [''When user enters valid credentials'', ''Then user is logged in''],
       expectedResult = ''user is logged in''\<rparr>,
      \<lparr>name = ''Failed login'',
       steps = [''When user enters invalid credentials'', ''Then error message is displayed''],
       expectedResult = ''error message is displayed''\<rparr>]"

definition resolvedCalls :: "call list" where
  "resolvedCalls =
     [GetSections 1 5, CreateSection 1 5 ''Parent'' None, CreateSection 1 5 ''Child'' (Some 101),
      FetchTicket ''PROJ-1'', GetTestCases 1 102 (Some 5)]"

definition foreignCase :: TestRailTestCaseResponse where
  "foreignCase = \<lparr>resp_id = 13, resp_title = ''Someone else'', resp_section_id = 102, resp_refs = Some ''PROJ-2''\<rparr>"

definition syncedCases :: "TestRailTestCaseResponse list" where
  "syncedCases =
     [\<lparr>resp_id = 21, resp_title = ''Successful login'', resp_section_id = 102, resp_refs = Some ''PROJ-1''\<rparr>,
      \<lparr>resp_id = 22, resp_title = ''Failed login'', resp_section_id = 102, resp_refs = Some ''PROJ-1''\<rparr>]"

definition duplicateCases :: "TestRailTestCaseResponse list" where
  "duplicateCases =
     [\<lparr>resp_id = 31, resp_title = ''Successful login'', resp_section_id = 102, resp_refs = Some ''PROJ-1''\<rparr>,
      \<lparr>resp_id = 32, resp_title = '' successful LOGIN '', resp_section_id = 102, resp_refs = Some ''PROJ-1, PROJ-9''\<rparr>,
      \<lparr>resp_id = 33, resp_title = ''Failed login'', resp_section_id = 102, resp_refs = Some ''PROJ-1''\<rparr>]"

definition stockedStore :: collaborators where
  "stockedStore =
     demoStore\<lparr>getSections := (\<lambda>h p s.
        Inr [\<lparr>sec_id = 7, sec_name = ''Smoke tests'', sec_suite_id = s, sec_parent_id = None\<rparr>])\<rparr>"

section \<open>Properties of the parser\<close>

subsection \<open>Every record has a step\<close>

lemma scenarioOfMatch_Some:
  "scenarioOfMatch caps count = Some sc \<Longrightarrow>
     steps sc \<noteq> [] \<and> expectedResult sc = extractExpectedResult (steps sc)"
  by (auto simp: scenarioOfMatch_def Let_def split: if_splits)

lemma parseLoop_invariant:
  assumes "\<forall>sc\<in>set scenarios. P sc"
    and "\<And>caps count sc. scenarioOfMatch caps count = Some sc \<Longrightarrow> P sc"
  shows "\<forall>sc\<in>set (parseLoop lastIndex cs scenarios). P sc"
  using assms(1)
proof (induction lastIndex cs scenarios rule: parseLoop.induct)
  case (1 lastIndex cs scenarios)
  show ?case
  proof (cases "execFrom flagsGI scenarioPattern lastIndex cs")
    case None
    with "1.prems" show ?thesis by (subst parseLoop.simps) simp
  next
    case (Some found)
    obtain start e cs' caps where found: "found = (start, e, cs', caps)" by (cases found) auto
    let ?next = "case scenarioOfMatch caps (length scenarios) of
                   None \<Rightarrow> scenarios | Some scenario \<Rightarrow> scenarios @ [scenario]"
    have "\<forall>sc\<in>set ?next. P sc"
      using "1.prems" assms(2) [of caps "length scenarios"] by (auto split: option.splits)
    from "1.IH" [OF Some [unfolded found] refl refl refl this]
    show ?thesis by (subst parseLoop.simps) (simp add: Some found)
  qed
qed

lemma fallbackLoop_invariant:
  assumes "\<forall>sc\<in>set scenarios. P sc"
    and "\<And>title stepList. stepList \<noteq> [] \<Longrightarrow>
           P \<lparr>name = title, steps = stepList, expectedResult = last stepList\<rparr>"
  shows "\<forall>sc\<in>set (fallbackLoop lastIndex cs scenarioIndex scenarios). P sc"
  using assms(1)
proof (induction lastIndex cs scenarioIndex scenarios rule: fallbackLoop.induct)
  case (1 lastIndex cs scenarioIndex scenarios)
  show ?case
  proof (cases "execFrom flagsGIS whenThenPattern lastIndex cs")
    case None
    with "1.prems" show ?thesis by (subst fallbackLoop.simps) simp
  next
    case (Some found)
    obtain start e cs' caps where found: "found = (start, e, cs', caps)" by (cases found) auto
    show ?thesis
    proof (cases "length (fallbackSteps caps) > 0")
      case True
      let ?next = "scenarios @
                    [\<lparr>name = ''Scenario '' @ showNat scenarioIndex,
                      steps = fallbackSteps caps,
                      expectedResult = last (fallbackSteps caps)\<rparr>]"
      have "\<forall>sc\<in>set ?next. P sc"
        using "1.prems" assms(2) [of "fallbackSteps caps"] True by auto
      from "1.IH"(1) [OF Some [unfolded found] refl refl refl True this]
      show ?thesis using True by (subst fallbackLoop.simps) (simp add: Some found)
    next
      case False
      from "1.IH"(2) [OF Some [unfolded found] refl refl refl False "1.prems"]
      show ?thesis using False by (subst fallbackLoop.simps) (simp add: Some found)
    qed
  qed
qed

lemma primary_pass_steps: "\<forall>sc\<in>set (parseLoop 0 d []). steps sc \<noteq> []"
  by (rule parseLoop_invariant) (simp, simp add: scenarioOfMatch_Some)

lemma fallback_pass_steps: "\<forall>sc\<in>set (parseFallbackScenarios d). steps sc \<noteq> []"
  unfolding parseFallbackScenarios_def by (rule fallbackLoop_invariant) simp_all

lemma no_steps_no_record:
  "parseScenarios ''Scenario:\<newline>Scenario:'' = []"
  "parseScenarios ''Scenario: x\<newline>Whenever'' = []"
  by code_simp+

lemma format1_parsed: "parseScenarios format1Description = [format1Scenario]"
  by code_simp

text \<open>
  C7. Whatever the description, every record that \<open>parseScenarios\<close> returns has at least one
  step, and so has every record of the primary pass and of the fallback pass taken alone. A
  block without a step line gives no record: two \<open>Scenario:\<close> markers in a row give none, and
  neither does a marker whose block the pattern matches but in which no line is a step.
\<close>

theorem parsed_scenarios_have_steps:
  "(\<forall>sc\<in>set (parseScenarios d). length (steps sc) \<ge> 1) \<and>
   (\<forall>sc\<in>set (parseLoop 0 d []). length (steps sc) \<ge> 1) \<and>
   (\<forall>sc\<in>set (parseFallbackScenarios d). length (steps sc) \<ge> 1) \<and>
   parseScenarios ''Scenario:\<newline>Scenario:'' = [] \<and>
   parseScenarios ''Scenario: x\<newline>Whenever'' = []"
proof -
  have nonempty: "\<And>xs :: string list. xs \<noteq> [] \<Longrightarrow> length xs \<ge> 1"
    by (simp add: Suc_leI)
  have a: "\<forall>sc\<in>set (parseLoop 0 d []). length (steps sc) \<ge> 1"
    using primary_pass_steps [of d] nonempty by blast
  have b: "\<forall>sc\<in>set (parseFallbackScenarios d). length (steps sc) \<ge> 1"
    using fallback_pass_steps [of d] nonempty by blast
  have "\<forall>sc\<in>set (parseScenarios d). length (steps sc) \<ge> 1"
    using a b by (auto simp: parseScenarios_def Let_def)
  with a b no_steps_no_record show ?thesis by simp
qed

theorem parsed_scenarios_have_steps_witness:
  "format1Scenario \<in> set (parseScenarios format1Description) \<and> length (steps format1Scenario) \<ge> 1"
proof -
  have mem: "format1Scenario \<in> set (parseScenarios format1Description)"
    by (simp add: format1_parsed)
  with parsed_scenarios_have_steps [of format1Description] show ?thesis by blast
qed

subsection \<open>The two documented inputs\<close>

lemma format1_steps:
  "convertStepsToTestRailFormat format1Scenario =
     [\<lparr>step_content = ''When user enters valid credentials'', step_expected = []\<rparr>,
      \<lparr>step_content = ''And clicks login button'', step_expected = []\<rparr>]"
  by code_simp

lemma format1_parts:
  "expectedResultParts format1Scenario = [''Then user is logged in'', ''And redirected to dashboard'']"
  by code_simp

text \<open>
  C1, as the claim states it, does not hold: the record of the parser does not leave the
  expected-result steps out of \<open>steps\<close>, and its \<open>expectedResult\<close> is not the two lines with their
  keywords.
\<close>

theorem format1_counterexample:
  "parseScenarios format1Description \<noteq>
     [\<lparr>name = ''User login'',
       steps = [''When user enters valid credentials'', ''And clicks login button''],
       expectedResult = ''Then user is logged in\<newline>And redirected to dashboard''\<rparr>]"
  by (simp add: format1_parsed format1Scenario_def)

text \<open>
  C1, amended. For the Format 1 input \<open>parseScenarios\<close> returns exactly one record, named
  \<open>User login\<close>, whose \<open>steps\<close> are all four step lines with their keywords and whose
  \<open>expectedResult\<close> is the content of the last \<open>Then\<close> step without the keyword,
  \<open>user is logged in\<close>. The split of the claim is made from that record when the payload of the
  test case is built: its steps are the two lines before the last \<open>Then\<close>, and its expected
  result is the \<open>Then\<close> line and the \<open>And\<close> line after it, keywords kept, joined by a line feed.
\<close>

theorem format1_round_trip:
  "parseScenarios format1Description =
     [\<lparr>name = ''User login'',
       steps = [''When user enters valid credentials'', ''And clicks login button'',
                ''Then user is logged in'', ''And redirected to dashboard''],
       expectedResult = ''user is logged in''\<rparr>] \<and>
   tc_steps (testCasePayload format1Scenario sectionId ticket) =
     [\<lparr>step_content = ''When user enters valid credentials'', step_expected = []\<rparr>,
      \<lparr>step_content = ''And clicks login button'', step_expected = []\<rparr>] \<and>
   tc_expected (testCasePayload format1Scenario sectionId ticket) =
     ''Then user is logged in\<newline>And redirected to dashboard''"
  by (simp add: format1_parsed format1_steps format1_parts testCasePayload_def
        format1Scenario_def [symmetric])

lemma noMarker_parsed: "parseScenarios noMarkerDescription = [noMarkerScenario]"
  by code_simp

lemma noMarker_primary: "parseLoop 0 noMarkerDescription [] = []"
  by code_simp

lemma noMarker_parts: "expectedResultParts noMarkerScenario = []"
  by code_simp

text \<open>
  C5, as the claim states it, does not hold: the expected result of the record does not start
  with the keyword \<open>Then\<close>.
\<close>

theorem no_marker_counterexample:
  "parseScenarios noMarkerDescription = [noMarkerScenario] \<and>
   expectedResult noMarkerScenario \<noteq> ''Then error message is displayed''"
  by (simp add: noMarker_parsed) (simp add: noMarkerScenario_def)

text \<open>
  C5, amended. For the input without a marker the primary pass finds nothing and the fallback
  pass returns exactly one record, named \<open>Scenario 1\<close>. Its steps are the texts after the
  keywords \<open>When\<close> and \<open>Then\<close>, and its \<open>expectedResult\<close> is the last of them,
  \<open>error message is displayed\<close>, without the keyword; the payload of the test case has the same
  expected result.
\<close>

theorem no_marker_fallback:
  "parseLoop 0 noMarkerDescription [] = [] \<and>
   parseScenarios noMarkerDescription =
     [\<lparr>name = ''Scenario 1'',
       steps = [''user enters invalid credentials'', ''error message is displayed''],
       expectedResult = ''error message is displayed''\<rparr>] \<and>
   tc_expected (testCasePayload noMarkerScenario sectionId ticket) = ''error message is displayed''"
  by (simp add: noMarker_parsed noMarker_primary noMarker_parts testCasePayload_def
        noMarkerScenario_def [symmetric])
     (simp add: noMarkerScenario_def)

section \<open>The split between steps and expected result\<close>

subsection \<open>Whether a pattern matches does not depend on what follows the match\<close>

lemma is_none_orelse:
  "Option.is_none (case x of Some r \<Rightarrow> Some r | None \<Rightarrow> y) = (Option.is_none x \<and> Option.is_none y)"
  by (cases x) simp_all

lemma repeatMatcher_fails_alike:
  assumes step: "\<And>k1 k2 s. (\<And>t. Option.is_none (k1 t) = Option.is_none (k2 t)) \<Longrightarrow>
                   Option.is_none (mr k1 s) = Option.is_none (mr k2 s)"
    and conts: "\<And>t. Option.is_none (k1 t) = Option.is_none (k2 t)"
  shows "Option.is_none (repeatMatcher g gs mr k1 s) = Option.is_none (repeatMatcher g gs mr k2 s)"
proof (induction "remaining s" arbitrary: s rule: less_induct)
  case less
  let ?again1 = "\<lambda>s'. if remaining s' < remaining s then repeatMatcher g gs mr k1 s' else None"
  let ?again2 = "\<lambda>s'. if remaining s' < remaining s then repeatMatcher g gs mr k2 s' else None"
  have "\<And>t. Option.is_none (?again1 t) = Option.is_none (?again2 t)"
    using less.hyps by simp
  from step [of ?again1 ?again2 "clearCaps gs s", OF this]
  have iter: "Option.is_none (mr ?again1 (clearCaps gs s)) = Option.is_none (mr ?again2 (clearCaps gs s))" .
  show ?case
    using iter conts [of s]
    by (subst (1 2) repeatMatcher.simps) (simp add: is_none_orelse)
qed

lemma matchRe_fails_alike:
  "(\<And>t. Option.is_none (k1 t) = Option.is_none (k2 t)) \<Longrightarrow>
     Option.is_none (matchRe f r k1 s) = Option.is_none (matchRe f r k2 s)"
proof (induction r arbitrary: k1 k2 s)
  case (Seq a b)
  have "\<And>t. Option.is_none (matchRe f b k1 t) = Option.is_none (matchRe f b k2 t)"
    by (rule Seq.IH(2)) (rule Seq.prems)
  from Seq.IH(1) [of "matchRe f b k1" "matchRe f b k2" s, OF this] show ?case by simp
next
  case (Alt a b)
  from Alt.IH(1) [of k1 k2 s, OF Alt.prems] Alt.IH(2) [of k1 k2 s, OF Alt.prems]
  show ?case by (simp add: is_none_orelse)
next
  case (Star g r)
  show ?case
    unfolding matchRe.simps
    by (rule repeatMatcher_fails_alike) (rule Star.IH, assumption, rule Star.prems)
next
  case (Group n r)
  have "\<And>t. Option.is_none (k1 (setCap n s t)) = Option.is_none (k2 (setCap n s t))"
    using Group.prems by simp
  from Group.IH [of "\<lambda>s'. k1 (setCap n s s')" "\<lambda>s'. k2 (setCap n s s')" s, OF this]
  show ?case by simp
next
  case (Look positive r)
  then show ?case by (simp split: option.splits prod.splits)
qed (simp_all split: prod.splits list.splits)

lemma star_total:
  assumes "\<And>t. \<not> Option.is_none (k t)"
  shows "\<not> Option.is_none (matchRe f (Star g r) k s)"
  using assms [of s] by (simp, subst repeatMatcher.simps) (simp add: is_none_orelse)

lemma is_none_orelse_map:
  "Option.is_none (case x of Some r \<Rightarrow> Some (h r) | None \<Rightarrow> y) = (Option.is_none x \<and> Option.is_none y)"
  by (cases x) simp_all

lemma execFrom_fails_alike:
  assumes "\<And>s. Option.is_none (matchRe f r1 Some s) = Option.is_none (matchRe f r2 Some s)"
  shows "Option.is_none (execFrom f r1 i cs) = Option.is_none (execFrom f r2 i cs)"
  using assms by (induction cs arbitrary: i) (simp_all add: is_none_orelse_map)

lemma test_fails_alike:
  assumes "\<And>s. Option.is_none (matchRe f r1 Some s) = Option.is_none (matchRe f r2 Some s)"
  shows "test f r1 step = test f r2 step"
  using execFrom_fails_alike [of f r1 r2 0 step, OF assms]
  by (simp add: test_def Option.is_none_def)

lemma trailing_plus:
  "Option.is_none (matchRe f (seqs [plus g (Chr Space)]) Some t) =
   Option.is_none (matchRe f (seqs [Chr Space]) Some t)"
proof -
  have "\<And>u. Option.is_none (matchRe f (Star g (Chr Space)) (matchRe f Eps Some) u) =
             Option.is_none (matchRe f Eps Some u)"
    using star_total [of "matchRe f Eps Some" f g "Chr Space"] by simp
  from matchRe_fails_alike [of "matchRe f (Star g (Chr Space)) (matchRe f Eps Some)"
         "matchRe f Eps Some" f "Chr Space" t, OF this]
  show ?thesis by (simp only: plus_def seqs.simps matchRe.simps)
qed

lemma seqs_fails_alike:
  assumes "\<And>t. Option.is_none (matchRe f (seqs rs1) k t) = Option.is_none (matchRe f (seqs rs2) k t)"
  shows "Option.is_none (matchRe f (seqs (front @ rs1)) k s) =
         Option.is_none (matchRe f (seqs (front @ rs2)) k s)"
proof (induction front arbitrary: s)
  case Nil
  show ?case using assms by simp
next
  case (Cons r front)
  from matchRe_fails_alike [of "matchRe f (seqs (front @ rs1)) k" "matchRe f (seqs (front @ rs2)) k"
         f r s, OF Cons.IH]
  show ?case by simp
qed

lemma isThenStep_prefix:
  "isThenStep step = (test flagsGI thenPrefix step \<or> test flagsGI andThenPrefix step)"
proof -
  have a: "test flagsGI thenPattern step = test flagsGI thenPrefix step"
  proof (rule test_fails_alike)
    fix s
    from seqs_fails_alike [of flagsGI "[plus True (Chr Space)]" Some "[Chr Space]"
           "[Bol, lit ''then'']" s, OF trailing_plus]
    show "Option.is_none (matchRe flagsGI thenPattern Some s) =
        Option.is_none (matchRe flagsGI thenPrefix Some s)"
      by (simp only: thenPattern_def thenPrefix_def append.simps)
  qed
  have b: "test flagsGI andThenPattern step = test flagsGI andThenPrefix step"
  proof (rule test_fails_alike)
    fix s
    from seqs_fails_alike [of flagsGI "[plus True (Chr Space)]" Some "[Chr Space]"
           "[Bol, lit ''and'', plus True (Chr Space), lit ''then'']" s, OF trailing_plus]
    show "Option.is_none (matchRe flagsGI andThenPattern Some s) =
        Option.is_none (matchRe flagsGI andThenPrefix Some s)"
      by (simp only: andThenPattern_def andThenPrefix_def append.simps)
  qed
  show ?thesis by (simp add: isThenStep_def a b)
qed


subsection \<open>The index of the last \<open>Then\<close> step\<close>

lemma lastThenBelow_none:
  "(\<forall>j<n. \<not> isThenStep (xs ! j)) \<Longrightarrow> lastThenBelow xs n = - 1"
  by (induction n) simp_all

lemma lastThenBelow_found:
  "k < n \<Longrightarrow> isThenStep (xs ! k) \<Longrightarrow> (\<forall>j. k < j \<and> j < n \<longrightarrow> \<not> isThenStep (xs ! j)) \<Longrightarrow>
     lastThenBelow xs n = int k"
proof (induction n)
  case 0
  then show ?case by simp
next
  case (Suc n)
  show ?case
  proof (cases "k = n")
    case True
    with Suc.prems show ?thesis by simp
  next
    case False
    with Suc.prems have "k < n" "\<not> isThenStep (xs ! n)" by auto
    with Suc show ?thesis by simp
  qed
qed

lemma lastThenContent_none:
  "(\<forall>s\<in>set xs. \<not> isThenStep s) \<Longrightarrow> lastThenContent xs = None"
  by (induction xs) (auto simp: isThenStep_def)

lemma extractExpectedResult_no_then:
  assumes "stepList \<noteq> []" "\<forall>j<length stepList. \<not> isThenStep (stepList ! j)"
  shows "extractExpectedResult stepList = trim (replaceFirst flagsGI stepLinePattern [] (last stepList))"
proof -
  from assms(2) have "\<forall>s\<in>set (rev stepList). \<not> isThenStep s"
    by (auto simp: in_set_conv_nth)
  then have "lastThenContent (rev stepList) = None" by (rule lastThenContent_none)
  with assms(1) show ?thesis by (simp add: extractExpectedResult_def)
qed

lemma primary_pass_expected:
  "\<forall>sc\<in>set (parseLoop 0 d []). expectedResult sc = extractExpectedResult (steps sc)"
  by (rule parseLoop_invariant) (simp, simp add: scenarioOfMatch_Some)

lemma fallback_pass_expected:
  "\<forall>sc\<in>set (parseFallbackScenarios d). expectedResult sc = last (steps sc)"
  unfolding parseFallbackScenarios_def by (rule fallbackLoop_invariant) simp_all


lemma givenName_parsed: "parseScenarios givenNameDescription = [givenNameScenario]"
  by code_simp

lemma givenName_index: "lastThenIndex (steps givenNameScenario) = - 1"
  by code_simp

lemma givenName_expected:
  "tc_expected (testCasePayload givenNameScenario 7 demoTicket) = ''given name is shown''"
  by code_simp

lemma givenName_stripped:
  "trim (replaceFirst flagsGI stepLinePattern [] (last (steps givenNameScenario))) = ''name is shown''"
  by code_simp

text \<open>
  C2, as the claim states it, does not hold for every parsed scenario. The fallback pass turns
  the description \<open>When a user signs up / Then given name is shown\<close> into a scenario with the steps
  \<open>a user signs up\<close> and \<open>given name is shown\<close>. No step starts with \<open>then\<close>, and the expected
  field of the payload is the scenario's \<open>expectedResult\<close>, \<open>given name is shown\<close>; the last step
  with its leading keyword stripped is \<open>name is shown\<close>.
\<close>

theorem payload_split_counterexample:
  "parseScenarios givenNameDescription = [givenNameScenario] \<and>
   steps givenNameScenario \<noteq> [] \<and>
   lastThenIndex (steps givenNameScenario) = - 1 \<and>
   tc_expected (testCasePayload givenNameScenario 7 demoTicket) = expectedResult givenNameScenario \<and>
   tc_expected (testCasePayload givenNameScenario 7 demoTicket) \<noteq>
     trim (replaceFirst flagsGI stepLinePattern [] (last (steps givenNameScenario)))"
  by (simp add: givenName_parsed givenName_index givenName_expected givenName_stripped)
     (simp add: givenNameScenario_def)

text \<open>
  C2, amended. For every scenario with a step, whatever the section and the ticket: if \<open>k\<close> is
  the position of the last step that matches \<open>^then\s\<close> or \<open>^and\s+then\s\<close> without regard to
  case, the steps of the payload are the steps before \<open>k\<close>, in order, each with an empty
  expected text, and the expected field of the payload is the steps from \<open>k\<close> on, joined by line
  feeds. If no step matches, the steps of the payload are all the steps and its expected field is
  the \<open>expectedResult\<close> of the scenario; for a scenario of the primary pass that is the last step
  with its leading keyword and the white space after it removed, and trimmed. For a scenario of
  the fallback pass \<open>expectedResult\<close> is the last collected step as it is.
\<close>

theorem payload_split:
  assumes "steps sc \<noteq> []"
  shows
    "(k < length (steps sc) \<and> (test flagsGI thenPrefix (steps sc ! k) \<or> test flagsGI andThenPrefix (steps sc ! k)) \<and>
      (\<forall>j. k < j \<and> j < length (steps sc) \<longrightarrow>
           \<not> (test flagsGI thenPrefix (steps sc ! j) \<or> test flagsGI andThenPrefix (steps sc ! j))) \<longrightarrow>
        tc_steps (testCasePayload sc sectionId ticket) =
          map (\<lambda>step. \<lparr>step_content = step, step_expected = []\<rparr>) (take k (steps sc)) \<and>
        tc_expected (testCasePayload sc sectionId ticket) = join [CHR 0x0A] (drop k (steps sc))) \<and>
     ((\<forall>j<length (steps sc).
           \<not> (test flagsGI thenPrefix (steps sc ! j) \<or> test flagsGI andThenPrefix (steps sc ! j))) \<longrightarrow>
        tc_steps (testCasePayload sc sectionId ticket) =
          map (\<lambda>step. \<lparr>step_content = step, step_expected = []\<rparr>) (steps sc) \<and>
        tc_expected (testCasePayload sc sectionId ticket) = expectedResult sc \<and>
        (sc \<in> set (parseLoop 0 d []) \<longrightarrow>
           expectedResult sc = trim (replaceFirst flagsGI stepLinePattern [] (last (steps sc))))) \<and>
     (sc \<in> set (parseFallbackScenarios d) \<longrightarrow> expectedResult sc = last (steps sc))"
proof (intro conjI impI)
  assume found: "k < length (steps sc) \<and>
     (test flagsGI thenPrefix (steps sc ! k) \<or> test flagsGI andThenPrefix (steps sc ! k)) \<and>
      (\<forall>j. k < j \<and> j < length (steps sc) \<longrightarrow>
           \<not> (test flagsGI thenPrefix (steps sc ! j) \<or> test flagsGI andThenPrefix (steps sc ! j)))"
  then have idx: "lastThenIndex (steps sc) = int k"
    unfolding lastThenIndex_def
    by (intro lastThenBelow_found) (simp_all add: isThenStep_prefix)
  from idx show "tc_steps (testCasePayload sc sectionId ticket) =
          map (\<lambda>step. \<lparr>step_content = step, step_expected = []\<rparr>) (take k (steps sc))"
    by (simp add: testCasePayload_def convertStepsToTestRailFormat_def)
  from idx found show "tc_expected (testCasePayload sc sectionId ticket) = join [CHR 0x0A] (drop k (steps sc))"
    by (simp add: testCasePayload_def expectedResultParts_def)
next
  assume none: "\<forall>j<length (steps sc).
           \<not> (test flagsGI thenPrefix (steps sc ! j) \<or> test flagsGI andThenPrefix (steps sc ! j))"
  then have idx: "lastThenIndex (steps sc) = - 1"
    unfolding lastThenIndex_def by (intro lastThenBelow_none) (simp add: isThenStep_prefix)
  from idx show "tc_steps (testCasePayload sc sectionId ticket) =
          map (\<lambda>step. \<lparr>step_content = step, step_expected = []\<rparr>) (steps sc)"
    by (simp add: testCasePayload_def convertStepsToTestRailFormat_def)
  from idx show "tc_expected (testCasePayload sc sectionId ticket) = expectedResult sc"
    by (simp add: testCasePayload_def expectedResultParts_def)
  assume "sc \<in> set (parseLoop 0 d [])"
  with primary_pass_expected have "expectedResult sc = extractExpectedResult (steps sc)" by blast
  also have "\<dots> = trim (replaceFirst flagsGI stepLinePattern [] (last (steps sc)))"
    using assms none by (intro extractExpectedResult_no_then) (simp_all add: isThenStep_prefix)
  finally show "expectedResult sc = trim (replaceFirst flagsGI stepLinePattern [] (last (steps sc)))" .
next
  assume "sc \<in> set (parseFallbackScenarios d)"
  with fallback_pass_expected show "expectedResult sc = last (steps sc)" by blast
qed


lemma format1_then: "test flagsGI thenPrefix (steps format1Scenario ! 2)"
  by code_simp

lemma format1_after:
  "\<not> (test flagsGI thenPrefix (steps format1Scenario ! 3) \<or>
      test flagsGI andThenPrefix (steps format1Scenario ! 3))"
  by code_simp

lemma noThen_steps:
  "\<not> (test flagsGI thenPrefix (steps noThenScenario ! 0) \<or>
      test flagsGI andThenPrefix (steps noThenScenario ! 0))"
  "\<not> (test flagsGI thenPrefix (steps noThenScenario ! 1) \<or>
      test flagsGI andThenPrefix (steps noThenScenario ! 1))"
  by code_simp+

lemma noThen_parsed: "parseLoop 0 noThenDescription [] = [noThenScenario]"
  by code_simp

lemma noMarker_fallback: "parseFallbackScenarios noMarkerDescription = [noMarkerScenario]"
  by code_simp

theorem payload_split_witness:
  "tc_steps (testCasePayload format1Scenario 7 demoTicket) =
     [\<lparr>step_content = ''When user enters valid credentials'', step_expected = []\<rparr>,
      \<lparr>step_content = ''And clicks login button'', step_expected = []\<rparr>] \<and>
   tc_expected (testCasePayload format1Scenario 7 demoTicket) =
     ''Then user is logged in\<newline>And redirected to dashboard'' \<and>
   noThenScenario \<in> set (parseLoop 0 noThenDescription []) \<and>
   tc_steps (testCasePayload noThenScenario 7 demoTicket) =
     [\<lparr>step_content = ''When user types a query'', step_expected = []\<rparr>,
      \<lparr>step_content = ''And presses enter'', step_expected = []\<rparr>] \<and>
   tc_expected (testCasePayload noThenScenario 7 demoTicket) = ''presses enter'' \<and>
   expectedResult noThenScenario =
     trim (replaceFirst flagsGI stepLinePattern [] (last (steps noThenScenario))) \<and>
   noMarkerScenario \<in> set (parseFallbackScenarios noMarkerDescription) \<and>
   expectedResult noMarkerScenario = last (steps noMarkerScenario)"
proof -
  have len1: "length (steps format1Scenario) = 4" by (simp add: format1Scenario_def)
  have last1: "2 < length (steps format1Scenario) \<and>
      (test flagsGI thenPrefix (steps format1Scenario ! 2) \<or>
       test flagsGI andThenPrefix (steps format1Scenario ! 2)) \<and>
      (\<forall>j. 2 < j \<and> j < length (steps format1Scenario) \<longrightarrow>
           \<not> (test flagsGI thenPrefix (steps format1Scenario ! j) \<or>
              test flagsGI andThenPrefix (steps format1Scenario ! j)))"
  proof (intro conjI allI impI)
    show "2 < length (steps format1Scenario)" by (simp add: len1)
    show "test flagsGI thenPrefix (steps format1Scenario ! 2) \<or>
          test flagsGI andThenPrefix (steps format1Scenario ! 2)"
      using format1_then by simp
    fix j
    assume "2 < j \<and> j < length (steps format1Scenario)"
    then have "j = 3" by (simp add: len1)
    then show "\<not> (test flagsGI thenPrefix (steps format1Scenario ! j) \<or>
              test flagsGI andThenPrefix (steps format1Scenario ! j))"
      using format1_after by simp
  qed
  have ne1: "steps format1Scenario \<noteq> []" by (simp add: format1Scenario_def)
  have first: "tc_steps (testCasePayload format1Scenario 7 demoTicket) =
          map (\<lambda>step. \<lparr>step_content = step, step_expected = []\<rparr>) (take 2 (steps format1Scenario)) \<and>
        tc_expected (testCasePayload format1Scenario 7 demoTicket) =
          join [CHR 0x0A] (drop 2 (steps format1Scenario))"
    using payload_split [OF ne1, of 2 7 demoTicket noThenDescription] last1 by blast
  have len2: "length (steps noThenScenario) = 2" by (simp add: noThenScenario_def)
  have none2: "\<forall>j<length (steps noThenScenario).
      \<not> (test flagsGI thenPrefix (steps noThenScenario ! j) \<or>
         test flagsGI andThenPrefix (steps noThenScenario ! j))"
  proof (intro allI impI)
    fix j
    assume "j < length (steps noThenScenario)"
    then have "j = 0 \<or> j = 1" by (auto simp: len2)
    then show "\<not> (test flagsGI thenPrefix (steps noThenScenario ! j) \<or>
         test flagsGI andThenPrefix (steps noThenScenario ! j))"
      using noThen_steps by auto
  qed
  have ne2: "steps noThenScenario \<noteq> []" by (simp add: noThenScenario_def)
  have mem2: "noThenScenario \<in> set (parseLoop 0 noThenDescription [])"
    by (simp add: noThen_parsed)
  have second: "tc_steps (testCasePayload noThenScenario 7 demoTicket) =
          map (\<lambda>step. \<lparr>step_content = step, step_expected = []\<rparr>) (steps noThenScenario) \<and>
        tc_expected (testCasePayload noThenScenario 7 demoTicket) = expectedResult noThenScenario \<and>
        expectedResult noThenScenario =
          trim (replaceFirst flagsGI stepLinePattern [] (last (steps noThenScenario)))"
    using payload_split [OF ne2, of 0 7 demoTicket noThenDescription] none2 mem2 by blast
  have ne3: "steps noMarkerScenario \<noteq> []" by (simp add: noMarkerScenario_def)
  have mem3: "noMarkerScenario \<in> set (parseFallbackScenarios noMarkerDescription)"
    by (simp add: noMarker_fallback)
  have third: "expectedResult noMarkerScenario = last (steps noMarkerScenario)"
    using payload_split [OF ne3, of 0 7 demoTicket noMarkerDescription] mem3 by blast
  from first have "tc_steps (testCasePayload format1Scenario 7 demoTicket) =
     [\<lparr>step_content = ''When user enters valid credentials'', step_expected = []\<rparr>,
      \<lparr>step_content = ''And clicks login button'', step_expected = []\<rparr>]"
    and "tc_expected (testCasePayload format1Scenario 7 demoTicket) =
     ''Then user is logged in\<newline>And redirected to dashboard''"
    by (simp_all add: format1Scenario_def)
  moreover from second have "tc_steps (testCasePayload noThenScenario 7 demoTicket) =
     [\<lparr>step_content = ''When user types a query'', step_expected = []\<rparr>,
      \<lparr>step_content = ''And presses enter'', step_expected = []\<rparr>]"
    and "tc_expected (testCasePayload noThenScenario 7 demoTicket) = ''presses enter''"
    by (simp_all add: noThenScenario_def)
  ultimately show ?thesis using second third mem2 mem3 by simp
qed

section \<open>Steps 4 and 5 of the run\<close>

subsection \<open>Every action is carried out and accounted for\<close>

lemma failuresOf_append:
  "failuresOf env toCall h (xs @ ys) = failuresOf env toCall h xs @ failuresOf env toCall (h @ map toCall xs) ys"
  by (induction xs arbitrary: h) simp_all

lemma syncScenario_real:
  assumes "syncScenario env False sectionId ticket casesMap sc (r, h) = (r', h')"
  shows "h' = h @ [callOf sectionId ticket casesMap (SyncScenario sc)] \<and>
         errors r' = errors r @ failuresOf env (callOf sectionId ticket casesMap) h [SyncScenario sc] \<and>
         scenariosSkipped r' = scenariosSkipped r +
           length (failuresOf env (callOf sectionId ticket casesMap) h [SyncScenario sc]) \<and>
         succeeded r' + length (failuresOf env (callOf sectionId ticket casesMap) h [SyncScenario sc]) =
           succeeded r + 1"
  using assms
  by (auto simp: syncScenario_def Let_def succeeded_def split: option.splits sum.splits)

lemma deleteCase_real:
  assumes "deleteCase env False tc (r, h) = (r', h')"
  shows "h' = h @ [callOf sectionId ticket casesMap (DeleteCase tc)] \<and>
         errors r' = errors r @ failuresOf env (callOf sectionId ticket casesMap) h [DeleteCase tc] \<and>
         scenariosSkipped r' = scenariosSkipped r +
           length (failuresOf env (callOf sectionId ticket casesMap) h [DeleteCase tc]) \<and>
         succeeded r' + length (failuresOf env (callOf sectionId ticket casesMap) h [DeleteCase tc]) =
           succeeded r + 1"
  using assms
  by (auto simp: deleteCase_def succeeded_def split: sum.splits)

lemma accounted_trans:
  assumes "accounted env toCall xs st st1" "accounted env toCall ys st1 st2"
  shows "accounted env toCall (xs @ ys) st st2"
  using assms
  by (auto simp: accounted_def failuresOf_append split: prod.splits)

lemma accounted_fold:
  assumes step: "\<And>x st. accounted env toCall [mk x] st (f x st)"
  shows "accounted env toCall (map mk xs) st (fold f xs st)"
proof (induction xs arbitrary: st)
  case Nil
  show ?case by (simp add: accounted_def split: prod.splits)
next
  case (Cons x xs)
  from accounted_trans [OF step [of x st] Cons.IH [of "f x st"]]
  show ?case by simp
qed

lemma syncCases_accounted:
  "accounted env (callOf sectionId ticket (existingCasesMap (jiraTicketTestCases jiraKey existing)))
     (plannedActions jiraKey scenarios existing) st
     (syncCases env False jiraKey sectionId ticket scenarios existing st)"
  unfolding plannedActions_def syncCases_def
proof (rule accounted_trans)
  let ?toCall = "callOf sectionId ticket (existingCasesMap (jiraTicketTestCases jiraKey existing))"
  show "accounted env ?toCall (map SyncScenario scenarios) st
     (fold (syncScenario env False sectionId ticket (existingCasesMap (jiraTicketTestCases jiraKey existing))) scenarios st)"
  proof (rule accounted_fold)
    fix x and st :: "SyncResult \<times> call list"
    obtain r h where st: "st = (r, h)" by (cases st)
    obtain r1 h1 where s1: "syncScenario env False sectionId ticket (existingCasesMap (jiraTicketTestCases jiraKey existing)) x (r, h) = (r1, h1)"
      by (cases "syncScenario env False sectionId ticket (existingCasesMap (jiraTicketTestCases jiraKey existing)) x (r, h)")
    from syncScenario_real [OF s1] show "accounted env ?toCall [SyncScenario x] st
       (syncScenario env False sectionId ticket (existingCasesMap (jiraTicketTestCases jiraKey existing)) x st)"
      by (simp add: accounted_def st s1)
  qed
  show "accounted env ?toCall (map DeleteCase (testCasesToDelete jiraKey existing scenarios))
     (fold (syncScenario env False sectionId ticket (existingCasesMap (jiraTicketTestCases jiraKey existing))) scenarios st)
     (fold (deleteCase env False) (testCasesToDelete jiraKey existing scenarios)
       (fold (syncScenario env False sectionId ticket (existingCasesMap (jiraTicketTestCases jiraKey existing))) scenarios st))"
  proof (rule accounted_fold)
    fix x and st :: "SyncResult \<times> call list"
    obtain r h where st: "st = (r, h)" by (cases st)
    obtain r1 h1 where s1: "deleteCase env False x (r, h) = (r1, h1)"
      by (cases "deleteCase env False x (r, h)")
    from deleteCase_real [OF s1, of sectionId ticket "existingCasesMap (jiraTicketTestCases jiraKey existing)"]
    show "accounted env ?toCall [DeleteCase x] st (deleteCase env False x st)"
      by (simp add: accounted_def st s1)
  qed
qed

lemma syncScenario_dry:
  assumes "syncScenario env True sectionId ticket casesMap sc (r, h) = (r', h')"
  shows "h' = h \<and> errors r' = errors r \<and> scenariosSkipped r' = scenariosSkipped r \<and>
         scenariosDeleted r' = scenariosDeleted r \<and> succeeded r' = succeeded r + 1"
  using assms
  by (auto simp: syncScenario_def Let_def succeeded_def split: option.splits)

lemma deleteCase_dry:
  assumes "deleteCase env True tc (r, h) = (r', h')"
  shows "h' = h \<and> errors r' = errors r \<and> scenariosSkipped r' = scenariosSkipped r \<and>
         scenariosCreated r' = scenariosCreated r \<and> scenariosUpdated r' = scenariosUpdated r \<and>
         scenariosDeleted r' = scenariosDeleted r + 1"
  using assms by (auto simp: deleteCase_def)

lemma simulated_trans:
  "simulated m st st1 \<Longrightarrow> simulated n st1 st2 \<Longrightarrow> simulated (m + n) st st2"
  by (auto simp: simulated_def split: prod.splits)

lemma simulated_fold:
  assumes step: "\<And>x st. simulated 1 st (f x st)"
  shows "simulated (length xs) st (fold f xs st)"
proof (induction xs arbitrary: st)
  case Nil
  show ?case by (simp add: simulated_def split: prod.splits)
next
  case (Cons x xs)
  from simulated_trans [OF step [of st x] Cons.IH [of "f x st"]]
  show ?case by simp
qed

lemma syncCases_simulated:
  "simulated (length (plannedActions jiraKey scenarios existing)) st
     (syncCases env True jiraKey sectionId ticket scenarios existing st)"
proof -
  let ?m = "existingCasesMap (jiraTicketTestCases jiraKey existing)"
  have a: "simulated (length scenarios) st (fold (syncScenario env True sectionId ticket ?m) scenarios st)"
  proof (rule simulated_fold)
    fix x and st :: "SyncResult \<times> call list"
    obtain r h where st: "st = (r, h)" by (cases st)
    obtain r1 h1 where s1: "syncScenario env True sectionId ticket ?m x (r, h) = (r1, h1)"
      by (cases "syncScenario env True sectionId ticket ?m x (r, h)")
    from syncScenario_dry [OF s1] show "simulated 1 st (syncScenario env True sectionId ticket ?m x st)"
      by (simp add: simulated_def st s1)
  qed
  have b: "simulated (length (testCasesToDelete jiraKey existing scenarios))
             (fold (syncScenario env True sectionId ticket ?m) scenarios st)
             (fold (deleteCase env True) (testCasesToDelete jiraKey existing scenarios)
                (fold (syncScenario env True sectionId ticket ?m) scenarios st))"
  proof (rule simulated_fold)
    fix x and st :: "SyncResult \<times> call list"
    obtain r h where st: "st = (r, h)" by (cases st)
    obtain r1 h1 where s1: "deleteCase env True x (r, h) = (r1, h1)"
      by (cases "deleteCase env True x (r, h)")
    from deleteCase_dry [OF s1] show "simulated 1 st (deleteCase env True x st)"
      by (simp add: simulated_def succeeded_def st s1)
  qed
  from simulated_trans [OF a b] show ?thesis
    by (simp add: plannedActions_def syncCases_def)
qed

lemma syncCases_calls:
  "snd (syncCases env dryRun jiraKey sectionId ticket scenarios existing (r, h)) =
     h @ (if dryRun then []
          else map (callOf sectionId ticket (existingCasesMap (jiraTicketTestCases jiraKey existing)))
                 (plannedActions jiraKey scenarios existing))"
proof (cases dryRun)
  case True
  with syncCases_simulated [of jiraKey scenarios existing "(r, h)" env sectionId ticket]
  show ?thesis by (simp add: simulated_def split: prod.splits)
next
  case False
  with syncCases_accounted [of env sectionId ticket jiraKey existing scenarios "(r, h)"]
  show ?thesis by (simp add: accounted_def split: prod.splits)
qed

subsection \<open>The title lookup and the test of ownership\<close>

lemma existingCasesMap_snoc:
  "existingCasesMap (cases @ [c]) = (existingCasesMap cases)(normalizedTitle (resp_title c) \<mapsto> c)"
  by (simp add: existingCasesMap_def)

lemma existingCasesMap_lookup:
  "existingCasesMap cases k =
     (case filter (\<lambda>c. normalizedTitle (resp_title c) = k) cases of
        [] \<Rightarrow> None
      | c # others \<Rightarrow> Some (last (c # others)))"
proof (induction cases rule: rev_induct)
  case Nil
  show ?case by (simp add: existingCasesMap_def)
next
  case (snoc c cases)
  show ?case
    by (cases "filter (\<lambda>c. normalizedTitle (resp_title c) = k) cases")
       (simp_all add: existingCasesMap_snoc snoc.IH)
qed

lemma existingCasesMap_Some:
  assumes "existingCasesMap cases k = Some c"
  shows "c \<in> set cases \<and> normalizedTitle (resp_title c) = k"
proof -
  let ?hits = "filter (\<lambda>c. normalizedTitle (resp_title c) = k) cases"
  from assms have ne: "?hits \<noteq> []" and c: "c = last ?hits"
    by (auto simp: existingCasesMap_lookup split: list.splits)
  from ne have "last ?hits \<in> set ?hits" by (rule last_in_set)
  with c show ?thesis by auto
qed

lemma existingCasesMap_hit:
  assumes "c \<in> set cases" "normalizedTitle (resp_title c) = k"
  shows "\<exists>found. existingCasesMap cases k = Some found"
proof -
  from assms have "filter (\<lambda>c. normalizedTitle (resp_title c) = k) cases \<noteq> []"
    by (auto simp: filter_empty_conv)
  then show ?thesis by (auto simp: existingCasesMap_lookup split: list.splits)
qed

lemma startsWith_append: "startsWith (sub @ post) sub"
  by (simp add: startsWith_def)

lemma includesStr_prefix: "startsWith s sub \<Longrightarrow> includesStr s sub"
  by (cases s) (simp_all add: startsWith_def)

lemma includesStr_append: "includesStr (pre @ sub @ post) sub"
  by (induction pre) (simp_all add: includesStr_prefix startsWith_append)

lemma includesStr_iff: "includesStr s sub = (\<exists>pre post. s = pre @ sub @ post)"
proof
  show "includesStr s sub \<Longrightarrow> \<exists>pre post. s = pre @ sub @ post"
  proof (induction s)
    case Nil
    then show ?case by simp
  next
    case (Cons c cs)
    show ?case
    proof (cases "startsWith (c # cs) sub")
      case True
      then have "c # cs = [] @ sub @ drop (length sub) (c # cs)"
        by (simp add: startsWith_def) (metis append_take_drop_id)
      then show ?thesis by blast
    next
      case False
      with Cons.prems have "includesStr cs sub" by simp
      from Cons.IH [OF this] obtain pre post where "cs = pre @ sub @ post" by blast
      then have "c # cs = (c # pre) @ sub @ post" by simp
      then show ?thesis by blast
    qed
  qed
next
  assume "\<exists>pre post. s = pre @ sub @ post"
  then show "includesStr s sub" using includesStr_append by auto
qed

lemma owned_only:
  "c \<in> set (jiraTicketTestCases jiraKey existing) = (c \<in> set existing \<and> includesStr (refsOf c) jiraKey)"
  by (auto simp: jiraTicketTestCases_def)

lemma update_call_target:
  assumes "a \<in> set (plannedActions jiraKey scenarios existing)"
    and "callOf sectionId ticket (existingCasesMap (jiraTicketTestCases jiraKey existing)) a =
           UpdateTestCase i payload"
  shows "\<exists>sc target. sc \<in> set scenarios \<and> target \<in> set existing \<and>
           includesStr (refsOf target) jiraKey \<and>
           normalizedTitle (resp_title target) = normalizedTitle (name sc) \<and>
           existingCasesMap (jiraTicketTestCases jiraKey existing) (normalizedTitle (name sc)) = Some target \<and>
           i = resp_id target \<and> payload = testCasePayload sc sectionId ticket"
proof (cases a)
  case (SyncScenario sc)
  with assms(1) have sc: "sc \<in> set scenarios" by (auto simp: plannedActions_def)
  from assms(2) SyncScenario obtain target where
    hit: "existingCasesMap (jiraTicketTestCases jiraKey existing) (normalizedTitle (name sc)) = Some target"
    and "i = resp_id target" "payload = testCasePayload sc sectionId ticket"
    by (auto split: option.splits)
  moreover from existingCasesMap_Some [OF hit] have "target \<in> set existing"
    "includesStr (refsOf target) jiraKey"
    "normalizedTitle (resp_title target) = normalizedTitle (name sc)"
    by (auto simp: owned_only)
  ultimately show ?thesis using sc by blast
next
  case (DeleteCase target)
  with assms(2) show ?thesis by simp
qed

lemma delete_call_target:
  assumes "a \<in> set (plannedActions jiraKey scenarios existing)"
    and "callOf sectionId ticket (existingCasesMap (jiraTicketTestCases jiraKey existing)) a =
           DeleteTestCase i"
  shows "\<exists>target. target \<in> set (testCasesToDelete jiraKey existing scenarios) \<and>
           target \<in> set existing \<and> includesStr (refsOf target) jiraKey \<and> i = resp_id target"
proof (cases a)
  case (SyncScenario sc)
  with assms(2) show ?thesis by (auto split: option.splits)
next
  case (DeleteCase target)
  with assms(1) have td: "target \<in> set (testCasesToDelete jiraKey existing scenarios)"
    by (auto simp: plannedActions_def)
  then have "target \<in> set existing" "includesStr (refsOf target) jiraKey"
    by (auto simp: testCasesToDelete_def owned_only)
  with assms(2) DeleteCase td show ?thesis by auto
qed

lemma same_id_same_case:
  assumes "distinct (map resp_id existing)" "x \<in> set existing" "y \<in> set existing" "resp_id x = resp_id y"
  shows "x = y"
  using assms by (meson distinct_map inj_onD)

lemma syncScenario_hit:
  assumes "casesMap (normalizedTitle (name sc)) = Some c"
    and "syncScenario env dryRun sectionId ticket casesMap sc (r, h) = (r', h')"
  shows "scenariosCreated r' = scenariosCreated r \<and> scenariosDeleted r' = scenariosDeleted r \<and>
         scenariosUpdated r' + scenariosSkipped r' = scenariosUpdated r + scenariosSkipped r + 1 \<and>
         (dryRun \<longrightarrow> scenariosUpdated r' = scenariosUpdated r + 1)"
  using assms by (auto simp: syncScenario_def Let_def split: sum.splits if_splits)

lemma sync_loop_hits:
  assumes "\<forall>sc\<in>set scs. \<exists>c. casesMap (normalizedTitle (name sc)) = Some c"
  shows "scenariosCreated (fst (fold (syncScenario env dryRun sectionId ticket casesMap) scs st)) =
           scenariosCreated (fst st) \<and>
         scenariosDeleted (fst (fold (syncScenario env dryRun sectionId ticket casesMap) scs st)) =
           scenariosDeleted (fst st) \<and>
         scenariosUpdated (fst (fold (syncScenario env dryRun sectionId ticket casesMap) scs st)) +
         scenariosSkipped (fst (fold (syncScenario env dryRun sectionId ticket casesMap) scs st)) =
           scenariosUpdated (fst st) + scenariosSkipped (fst st) + length scs \<and>
         (dryRun \<longrightarrow>
            scenariosUpdated (fst (fold (syncScenario env dryRun sectionId ticket casesMap) scs st)) =
              scenariosUpdated (fst st) + length scs)"
  using assms
proof (induction scs arbitrary: st)
  case Nil
  show ?case by simp
next
  case (Cons sc scs)
  obtain r h where st: "st = (r, h)" by (cases st)
  obtain r1 h1 where s1: "syncScenario env dryRun sectionId ticket casesMap sc (r, h) = (r1, h1)"
    by (cases "syncScenario env dryRun sectionId ticket casesMap sc (r, h)")
  from Cons.prems obtain c where "casesMap (normalizedTitle (name sc)) = Some c" by auto
  from syncScenario_hit [OF this s1] Cons.IH [of "(r1, h1)"] Cons.prems s1
  show ?case by (cases dryRun) (simp_all add: st)
qed

lemma duplicate_lookup:
  assumes "filter (\<lambda>c. normalizedTitle (resp_title c) = t) cases = [earlier, later]"
  shows "existingCasesMap cases t = Some later"
  using assms by (simp add: existingCasesMap_lookup)

subsection \<open>The run from step 4 on\<close>

lemma run_after_setup:
  assumes "resolveSuite env projectId suite suiteName dryRun createSuiteIfMissing h0 = (Inr resolved, h1)"
    and "resolveSection env projectId resolved suite section sectionName dryRun createSectionIfMissing h1 =
           (Inr (sectionId, suiteId), h2)"
    and "fetchTicket env h2 jiraKey = Inr ticket"
    and "parseScenarios (ticket_description ticket) \<noteq> []"
    and "\<not> (dryRun \<and> sectionId = - 1)"
    and "getTestCases env (h2 @ [FetchTicket jiraKey]) projectId sectionId (orUndefined suiteId) = Inr existing"
  shows "syncTicketToTestRail env jiraKey projectId suite section sectionName dryRun suiteName
           createSuiteIfMissing createSectionIfMissing h0 =
         (Inr (fst (syncCases env dryRun jiraKey sectionId ticket (parseScenarios (ticket_description ticket))
                      existing
                      (emptyResult ticket (length (parseScenarios (ticket_description ticket))),
                       h2 @ [FetchTicket jiraKey, GetTestCases projectId sectionId (orUndefined suiteId)]))),
          snd (syncCases env dryRun jiraKey sectionId ticket (parseScenarios (ticket_description ticket))
                 existing
                 (emptyResult ticket (length (parseScenarios (ticket_description ticket))),
                  h2 @ [FetchTicket jiraKey, GetTestCases projectId sectionId (orUndefined suiteId)])))"
  using assms
  by (auto simp: syncTicketToTestRail_def bindIO_def callIO_def returnIO_def split: prod.splits)

lemma login_parsed: "parseScenarios (ticket_description loginTicket) = loginScenarios"
  by code_simp

lemma demo_suite: "resolveSuite demoStore 1 (Some 5) None False False [] = (Inr (Some 5), [])"
  by code_simp

lemma demo_section:
  "resolveSection demoStore 1 (Some 5) (Some 5) None (Some ''Parent/Child'') False True [] =
     (Inr (102, Some 5),
      [GetSections 1 5, CreateSection 1 5 ''Parent'' None, CreateSection 1 5 ''Child'' (Some 101)])"
  by code_simp

lemma demo_plan:
  "plannedActions ''PROJ-1'' loginScenarios storedCases =
     [SyncScenario (loginScenarios ! 0), SyncScenario (loginScenarios ! 1), DeleteCase (storedCases ! 1)]"
  by code_simp

lemma demo_calls:
  "map (callOf 102 loginTicket (existingCasesMap (jiraTicketTestCases ''PROJ-1'' storedCases)))
     (plannedActions ''PROJ-1'' loginScenarios storedCases) =
   [UpdateTestCase 11 (testCasePayload (loginScenarios ! 0) 102 loginTicket),
    CreateTestCase 102 (testCasePayload (loginScenarios ! 1) 102 loginTicket),
    DeleteTestCase 12]"
  by code_simp

lemma demo_failures:
  "failuresOf demoStore (callOf 102 loginTicket (existingCasesMap (jiraTicketTestCases ''PROJ-1'' storedCases)))
     resolvedCalls (plannedActions ''PROJ-1'' loginScenarios storedCases) =
   [''Failed to sync scenario '' @ quoted ''Failed login'' @ '': Failed to create test case: 400 Bad Request'']"
  by code_simp

text \<open>
  C6. Take a run that is not a dry run and whose setup succeeded: the suite and the section were
  resolved, the ticket was fetched, it has a scenario, and the cases of the section were listed.
  Then, whatever the client answers to the calls on cases, the run returns a summary, and it has
  made the call of every action of the plan, in the order of the plan: one creation or update for
  each scenario, then one deletion for each case to delete. The error list of the summary is, in
  order, one message for each action whose call threw, naming the scenario (or the case and its
  id) and carrying the message of the error; the skipped counter is the number of those
  messages; every other action was counted as created, updated or deleted.
\<close>

theorem failure_isolation:
  assumes "resolveSuite env projectId suite suiteName False createSuiteIfMissing h0 = (Inr resolved, h1)"
    and "resolveSection env projectId resolved suite section sectionName False createSectionIfMissing h1 =
           (Inr (sectionId, suiteId), h2)"
    and "fetchTicket env h2 jiraKey = Inr ticket"
    and "parseScenarios (ticket_description ticket) \<noteq> []"
    and "getTestCases env (h2 @ [FetchTicket jiraKey]) projectId sectionId (orUndefined suiteId) = Inr existing"
  shows "\<exists>summary.
           syncTicketToTestRail env jiraKey projectId suite section sectionName False suiteName
             createSuiteIfMissing createSectionIfMissing h0 =
           (Inr summary,
            h2 @ [FetchTicket jiraKey, GetTestCases projectId sectionId (orUndefined suiteId)] @
            map (callOf sectionId ticket (existingCasesMap (jiraTicketTestCases jiraKey existing)))
              (plannedActions jiraKey (parseScenarios (ticket_description ticket)) existing)) \<and>
           errors summary =
             failuresOf env (callOf sectionId ticket (existingCasesMap (jiraTicketTestCases jiraKey existing)))
               (h2 @ [FetchTicket jiraKey, GetTestCases projectId sectionId (orUndefined suiteId)])
               (plannedActions jiraKey (parseScenarios (ticket_description ticket)) existing) \<and>
           scenariosSkipped summary = length (errors summary) \<and>
           scenariosCreated summary + scenariosUpdated summary + scenariosDeleted summary +
             scenariosSkipped summary =
             length (plannedActions jiraKey (parseScenarios (ticket_description ticket)) existing)"
proof -
  let ?scenarios = "parseScenarios (ticket_description ticket)"
  let ?h3 = "h2 @ [FetchTicket jiraKey, GetTestCases projectId sectionId (orUndefined suiteId)]"
  let ?start = "(emptyResult ticket (length ?scenarios), ?h3)"
  let ?end = "syncCases env False jiraKey sectionId ticket ?scenarios existing ?start"
  have run: "syncTicketToTestRail env jiraKey projectId suite section sectionName False suiteName
           createSuiteIfMissing createSectionIfMissing h0 = (Inr (fst ?end), snd ?end)"
    using run_after_setup [OF assms(1,2,3,4) _ assms(5)] by simp
  from syncCases_accounted [of env sectionId ticket jiraKey existing ?scenarios ?start]
  have "snd ?end = ?h3 @ map (callOf sectionId ticket (existingCasesMap (jiraTicketTestCases jiraKey existing)))
              (plannedActions jiraKey ?scenarios existing)"
    and "errors (fst ?end) =
           failuresOf env (callOf sectionId ticket (existingCasesMap (jiraTicketTestCases jiraKey existing)))
             ?h3 (plannedActions jiraKey ?scenarios existing)"
    and "scenariosSkipped (fst ?end) = length (errors (fst ?end))"
    and "succeeded (fst ?end) + scenariosSkipped (fst ?end) = length (plannedActions jiraKey ?scenarios existing)"
    by (simp_all add: accounted_def emptyResult_def succeeded_def split: prod.splits)
  with run show ?thesis by (intro exI [of _ "fst ?end"]) (simp add: succeeded_def)
qed

theorem failure_isolation_witness:
  "\<exists>summary.
     syncTicketToTestRail demoStore ''PROJ-1'' 1 (Some 5) None (Some ''Parent/Child'') False None False True [] =
       (Inr summary,
        resolvedCalls @
        [UpdateTestCase 11 (testCasePayload (loginScenarios ! 0) 102 loginTicket),
         CreateTestCase 102 (testCasePayload (loginScenarios ! 1) 102 loginTicket),
         DeleteTestCase 12]) \<and>
     errors summary =
       [''Failed to sync scenario '' @ quoted ''Failed login'' @ '': Failed to create test case: 400 Bad Request''] \<and>
     scenariosSkipped summary = 1 \<and>
     scenariosCreated summary + scenariosUpdated summary + scenariosDeleted summary +
       scenariosSkipped summary = 3"
proof -
  have ticket: "fetchTicket demoStore
      [GetSections 1 5, CreateSection 1 5 ''Parent'' None, CreateSection 1 5 ''Child'' (Some 101)]
      ''PROJ-1'' = Inr loginTicket"
    by (simp add: demoStore_def)
  have found: "parseScenarios (ticket_description loginTicket) \<noteq> []"
    by (simp add: login_parsed loginScenarios_def)
  have listed: "getTestCases demoStore
      ([GetSections 1 5, CreateSection 1 5 ''Parent'' None, CreateSection 1 5 ''Child'' (Some 101)] @
       [FetchTicket ''PROJ-1'']) 1 102 (orUndefined (Some 5)) = Inr storedCases"
    by (simp add: demoStore_def)
  have five: "orUndefined (Some 5) = Some 5" by (simp add: orUndefined_def truthy_def)
  from failure_isolation [OF demo_suite demo_section ticket found listed]
  obtain summary where
    run: "syncTicketToTestRail demoStore ''PROJ-1'' 1 (Some 5) None (Some ''Parent/Child'') False None
            False True [] =
          (Inr summary,
           [GetSections 1 5, CreateSection 1 5 ''Parent'' None, CreateSection 1 5 ''Child'' (Some 101)] @
           [FetchTicket ''PROJ-1'', GetTestCases 1 102 (orUndefined (Some 5))] @
           map (callOf 102 loginTicket (existingCasesMap (jiraTicketTestCases ''PROJ-1'' storedCases)))
             (plannedActions ''PROJ-1'' (parseScenarios (ticket_description loginTicket)) storedCases))"
    and errs: "errors summary =
          failuresOf demoStore
            (callOf 102 loginTicket (existingCasesMap (jiraTicketTestCases ''PROJ-1'' storedCases)))
            ([GetSections 1 5, CreateSection 1 5 ''Parent'' None, CreateSection 1 5 ''Child'' (Some 101)] @
             [FetchTicket ''PROJ-1'', GetTestCases 1 102 (orUndefined (Some 5))])
            (plannedActions ''PROJ-1'' (parseScenarios (ticket_description loginTicket)) storedCases)"
    and skipped: "scenariosSkipped summary = length (errors summary)"
    and total: "scenariosCreated summary + scenariosUpdated summary + scenariosDeleted summary +
          scenariosSkipped summary =
          length (plannedActions ''PROJ-1'' (parseScenarios (ticket_description loginTicket)) storedCases)"
    by blast
  from run have run': "syncTicketToTestRail demoStore ''PROJ-1'' 1 (Some 5) None (Some ''Parent/Child'')
            False None False True [] =
          (Inr summary,
           resolvedCalls @
           [UpdateTestCase 11 (testCasePayload (loginScenarios ! 0) 102 loginTicket),
            CreateTestCase 102 (testCasePayload (loginScenarios ! 1) 102 loginTicket),
            DeleteTestCase 12])"
    by (simp only: login_parsed five demo_calls resolvedCalls_def append.simps)
  from errs have errs': "errors summary =
       [''Failed to sync scenario '' @ quoted ''Failed login'' @ '': Failed to create test case: 400 Bad Request'']"
    by (simp only: login_parsed five append.simps demo_failures [unfolded resolvedCalls_def])
  from total have total': "scenariosCreated summary + scenariosUpdated summary + scenariosDeleted summary +
          scenariosSkipped summary = 3"
    by (simp only: login_parsed demo_plan) simp
  from skipped errs' have "scenariosSkipped summary = 1" by simp
  with run' errs' total' show ?thesis by blast
qed

subsection \<open>Cases of other tickets\<close>

lemma foreign_refs: "\<not> includesStr (refsOf foreignCase) ''PROJ-1''"
  by code_simp

text \<open>
  C4. A case of the fetched snapshot whose \<open>refs\<close> field does not contain the ticket key as a
  run of characters (compared as they are, so with regard to case) is not among the cases of the
  ticket, is not selected for deletion, and is not the value of the title lookup under any key,
  whatever its title and whatever the scenarios. When the ids of the snapshot are distinct, no
  call of steps 4 and 5 deletes or updates the case with its id, in a dry run or not.
\<close>

theorem foreign_cases_untouched:
  assumes "tc \<in> set existing"
    and "\<not> (\<exists>before after. refsOf tc = before @ jiraKey @ after)"
    and "syncCases env dryRun jiraKey sectionId ticket scenarios existing (result, h) = (result', h')"
  shows "tc \<notin> set (jiraTicketTestCases jiraKey existing) \<and>
         tc \<notin> set (testCasesToDelete jiraKey existing scenarios) \<and>
         (\<forall>k. existingCasesMap (jiraTicketTestCases jiraKey existing) k \<noteq> Some tc) \<and>
         (distinct (map resp_id existing) \<longrightarrow>
            (\<forall>c\<in>set (drop (length h) h'). c \<noteq> DeleteTestCase (resp_id tc) \<and>
                                          (\<forall>payload. c \<noteq> UpdateTestCase (resp_id tc) payload)))"
proof (intro conjI allI impI ballI)
  from assms(2) have foreign: "\<not> includesStr (refsOf tc) jiraKey" by (simp add: includesStr_iff)
  then show notOwned: "tc \<notin> set (jiraTicketTestCases jiraKey existing)" by (simp add: owned_only)
  then show "tc \<notin> set (testCasesToDelete jiraKey existing scenarios)"
    by (simp add: testCasesToDelete_def)
  show "existingCasesMap (jiraTicketTestCases jiraKey existing) k \<noteq> Some tc" for k
    using existingCasesMap_Some [of "jiraTicketTestCases jiraKey existing" k tc] notOwned by blast
  have calls: "drop (length h) h' =
     (if dryRun then []
      else map (callOf sectionId ticket (existingCasesMap (jiraTicketTestCases jiraKey existing)))
             (plannedActions jiraKey scenarios existing))"
    using syncCases_calls [of env dryRun jiraKey sectionId ticket scenarios existing result h] assms(3)
    by simp
  {
    fix c
    assume ids: "distinct (map resp_id existing)" and c: "c \<in> set (drop (length h) h')"
    from c calls obtain a where a: "a \<in> set (plannedActions jiraKey scenarios existing)"
      and ca: "callOf sectionId ticket (existingCasesMap (jiraTicketTestCases jiraKey existing)) a = c"
      by (auto split: if_splits)
    have other: "resp_id target \<noteq> resp_id tc"
      if "target \<in> set existing" "includesStr (refsOf target) jiraKey" for target
      using same_id_same_case [OF ids that(1) assms(1)] that(2) foreign by auto
    show "c \<noteq> DeleteTestCase (resp_id tc)"
    proof
      assume "c = DeleteTestCase (resp_id tc)"
      from delete_call_target [OF a ca [unfolded this]] other show False by metis
    qed
    show "c \<noteq> UpdateTestCase (resp_id tc) payload" for payload
    proof
      assume "c = UpdateTestCase (resp_id tc) payload"
      from update_call_target [OF a ca [unfolded this]] other show False by metis
    qed
  }
qed

theorem foreign_cases_untouched_witness:
  "foreignCase \<in> set storedCases \<and>
   foreignCase \<notin> set (jiraTicketTestCases ''PROJ-1'' storedCases) \<and>
   foreignCase \<notin> set (testCasesToDelete ''PROJ-1'' storedCases loginScenarios) \<and>
   DeleteTestCase 13 \<notin>
     set (snd (syncCases demoStore False ''PROJ-1'' 102 loginTicket loginScenarios storedCases
                 (emptyResult loginTicket 2, []))) \<and>
   UpdateTestCase 13 (testCasePayload (loginScenarios ! 0) 102 loginTicket) \<notin>
     set (snd (syncCases demoStore False ''PROJ-1'' 102 loginTicket loginScenarios storedCases
                 (emptyResult loginTicket 2, [])))"
proof -
  let ?run = "syncCases demoStore False ''PROJ-1'' 102 loginTicket loginScenarios storedCases
                (emptyResult loginTicket 2, [])"
  have mem: "foreignCase \<in> set storedCases" by (simp add: storedCases_def foreignCase_def)
  have foreign: "\<not> (\<exists>before after. refsOf foreignCase = before @ ''PROJ-1'' @ after)"
    using foreign_refs by (simp add: includesStr_iff)
  have run: "?run = (fst ?run, snd ?run)" by simp
  have ids: "distinct (map resp_id storedCases)" by (simp add: storedCases_def)
  have thirteen: "resp_id foreignCase = 13" by (simp add: foreignCase_def)
  from foreign_cases_untouched [OF mem foreign run] ids thirteen
  show ?thesis using mem by auto
qed

subsection \<open>A second run over the same description\<close>

lemma synced_every:
  "\<forall>sc\<in>set loginScenarios. \<exists>tc\<in>set syncedCases.
      resp_title tc = name sc \<and> (\<exists>before after. refsOf tc = before @ ''PROJ-1'' @ after)"
proof -
  have "\<exists>before after. ''PROJ-1'' = before @ ''PROJ-1'' @ after"
    by (intro exI [of _ "[]"]) simp
  then show ?thesis by (simp add: loginScenarios_def syncedCases_def refsOf_def)
qed

lemma synced_only: "\<forall>tc\<in>set syncedCases. \<exists>sc\<in>set loginScenarios. resp_title tc = name sc"
  by (simp add: loginScenarios_def syncedCases_def)

text \<open>
  C3. Let the snapshot hold, for each scenario, a case whose title is the name of the scenario
  and whose \<open>refs\<close> contain the ticket key, and no case with another title: the state a first run
  leaves. Then in steps 4 and 5 of the next run no case is selected for deletion and every
  scenario finds its case in the title lookup; the created and the deleted counters do not move;
  every scenario is counted as updated or as skipped (in a dry run, as updated); and every call
  made is an update, one for each scenario when the run is not a dry run and none when it is.
\<close>

theorem second_run_idempotent:
  assumes every: "\<forall>sc\<in>set scenarios. \<exists>tc\<in>set existing.
                    resp_title tc = name sc \<and> (\<exists>before after. refsOf tc = before @ jiraKey @ after)"
    and only: "\<forall>tc\<in>set existing. \<exists>sc\<in>set scenarios. resp_title tc = name sc"
    and run: "syncCases env dryRun jiraKey sectionId ticket scenarios existing (result, h) = (result', h')"
  shows "testCasesToDelete jiraKey existing scenarios = [] \<and>
         (\<forall>sc\<in>set scenarios. \<exists>target\<in>set existing.
            existingCasesMap (jiraTicketTestCases jiraKey existing) (normalizedTitle (name sc)) = Some target) \<and>
         scenariosCreated result' = scenariosCreated result \<and>
         scenariosDeleted result' = scenariosDeleted result \<and>
         scenariosUpdated result' + scenariosSkipped result' =
           scenariosUpdated result + scenariosSkipped result + length scenarios \<and>
         (dryRun \<longrightarrow> h' = h \<and> scenariosUpdated result' = scenariosUpdated result + length scenarios) \<and>
         (\<forall>c\<in>set (drop (length h) h'). \<exists>target payload. c = UpdateTestCase target payload) \<and>
         (\<not> dryRun \<longrightarrow> length h' = length h + length scenarios)"
proof -
  let ?m = "existingCasesMap (jiraTicketTestCases jiraKey existing)"
  have "normalizedTitle (resp_title tc) \<in> jiraScenarioTitles scenarios" if "tc \<in> set existing" for tc
  proof -
    from only that obtain sc where "sc \<in> set scenarios" "resp_title tc = name sc" by blast
    then show ?thesis by (auto simp: jiraScenarioTitles_def)
  qed
  then have none: "testCasesToDelete jiraKey existing scenarios = []"
    by (simp add: testCasesToDelete_def filter_empty_conv owned_only)
  have hits: "\<forall>sc\<in>set scenarios. \<exists>target\<in>set existing. ?m (normalizedTitle (name sc)) = Some target"
  proof
    fix sc
    assume "sc \<in> set scenarios"
    with every obtain tc where tc: "tc \<in> set existing" "resp_title tc = name sc"
      "\<exists>before after. refsOf tc = before @ jiraKey @ after"
      by blast
    from tc(3) have "includesStr (refsOf tc) jiraKey" by (simp add: includesStr_iff)
    with tc have "tc \<in> set (jiraTicketTestCases jiraKey existing)"
      "normalizedTitle (resp_title tc) = normalizedTitle (name sc)"
      by (simp_all add: owned_only)
    from existingCasesMap_hit [OF this] obtain found where f: "?m (normalizedTitle (name sc)) = Some found" ..
    from existingCasesMap_Some [OF f] have "found \<in> set existing" by (simp add: owned_only)
    with f show "\<exists>target\<in>set existing. ?m (normalizedTitle (name sc)) = Some target" by blast
  qed
  then have hits': "\<forall>sc\<in>set scenarios. \<exists>c. ?m (normalizedTitle (name sc)) = Some c" by blast
  from run none have loop: "fold (syncScenario env dryRun sectionId ticket ?m) scenarios (result, h) = (result', h')"
    by (simp add: syncCases_def)
  from sync_loop_hits [OF hits', of env dryRun sectionId ticket "(result, h)"] loop
  have counters: "scenariosCreated result' = scenariosCreated result \<and>
      scenariosDeleted result' = scenariosDeleted result \<and>
      scenariosUpdated result' + scenariosSkipped result' =
        scenariosUpdated result + scenariosSkipped result + length scenarios \<and>
      (dryRun \<longrightarrow> scenariosUpdated result' = scenariosUpdated result + length scenarios)"
    by (cases dryRun) simp_all
  have calls: "h' = h @ (if dryRun then [] else map (callOf sectionId ticket ?m) (map SyncScenario scenarios))"
    using syncCases_calls [of env dryRun jiraKey sectionId ticket scenarios existing result h] run none
    by (simp add: plannedActions_def)
  have updates: "\<forall>c\<in>set (drop (length h) h'). \<exists>target payload. c = UpdateTestCase target payload"
    using calls hits' by (auto split: if_splits)
  from none hits counters calls updates show ?thesis by auto
qed

theorem second_run_idempotent_witness:
  "testCasesToDelete ''PROJ-1'' syncedCases loginScenarios = [] \<and>
   scenariosCreated (fst (syncCases demoStore False ''PROJ-1'' 102 loginTicket loginScenarios syncedCases
                            (emptyResult loginTicket 2, []))) = 0 \<and>
   scenariosDeleted (fst (syncCases demoStore False ''PROJ-1'' 102 loginTicket loginScenarios syncedCases
                            (emptyResult loginTicket 2, []))) = 0 \<and>
   length (snd (syncCases demoStore False ''PROJ-1'' 102 loginTicket loginScenarios syncedCases
                  (emptyResult loginTicket 2, []))) = 2"
proof -
  let ?run = "syncCases demoStore False ''PROJ-1'' 102 loginTicket loginScenarios syncedCases
                (emptyResult loginTicket 2, [])"
  have run: "?run = (fst ?run, snd ?run)" by simp
  from second_run_idempotent [OF synced_every synced_only run]
  show ?thesis by (simp add: emptyResult_def loginScenarios_def)
qed

subsection \<open>Two cases with the same normalized title\<close>

lemma duplicate_owned:
  "filter (\<lambda>c. normalizedTitle (resp_title c) = ''successful login'')
     (jiraTicketTestCases ''PROJ-1'' duplicateCases) = [duplicateCases ! 0, duplicateCases ! 1]"
  by code_simp

lemma login_title: "normalizedTitle (name (loginScenarios ! 0)) = ''successful login''"
  by code_simp

text \<open>
  C10. Let exactly two cases of the ticket have the normalized title \<open>t\<close>, \<open>earlier\<close> before
  \<open>later\<close> in the order of the fetch. Then the title lookup holds \<open>later\<close> under \<open>t\<close>; in a run
  that is not a dry run the call of every scenario whose normalized name is \<open>t\<close> is an update of
  the case with the id of \<open>later\<close>, carrying the payload of that scenario; when the ids of the
  snapshot are distinct, no call updates the case with the id of \<open>earlier\<close>; and when some
  scenario has the normalized name \<open>t\<close>, neither case is selected for deletion and, ids being
  distinct, no call deletes either.
\<close>

theorem duplicate_titles_last_wins:
  assumes dup: "filter (\<lambda>c. normalizedTitle (resp_title c) = t) (jiraTicketTestCases jiraKey existing) =
                  [earlier, later]"
    and run: "syncCases env dryRun jiraKey sectionId ticket scenarios existing (result, h) = (result', h')"
  shows "existingCasesMap (jiraTicketTestCases jiraKey existing) t = Some later \<and>
         (\<not> dryRun \<longrightarrow>
            (\<forall>i<length scenarios. normalizedTitle (name (scenarios ! i)) = t \<longrightarrow>
               h' ! (length h + i) =
                 UpdateTestCase (resp_id later) (testCasePayload (scenarios ! i) sectionId ticket))) \<and>
         (distinct (map resp_id existing) \<longrightarrow>
            (\<forall>c\<in>set (drop (length h) h'). \<forall>payload. c \<noteq> UpdateTestCase (resp_id earlier) payload)) \<and>
         ((\<exists>sc\<in>set scenarios. normalizedTitle (name sc) = t) \<longrightarrow>
            earlier \<notin> set (testCasesToDelete jiraKey existing scenarios) \<and>
            later \<notin> set (testCasesToDelete jiraKey existing scenarios) \<and>
            (distinct (map resp_id existing) \<longrightarrow>
               (\<forall>c\<in>set (drop (length h) h').
                  c \<noteq> DeleteTestCase (resp_id earlier) \<and> c \<noteq> DeleteTestCase (resp_id later))))"
proof -
  let ?owned = "jiraTicketTestCases jiraKey existing"
  let ?m = "existingCasesMap ?owned"
  let ?toCall = "callOf sectionId ticket ?m"
  have lookup: "?m t = Some later" using dup by (rule duplicate_lookup)
  have mem: "earlier \<in> set (filter (\<lambda>c. normalizedTitle (resp_title c) = t) ?owned)"
    "later \<in> set (filter (\<lambda>c. normalizedTitle (resp_title c) = t) ?owned)"
    by (simp_all add: dup)
  then have owned: "earlier \<in> set existing" "later \<in> set existing"
    and titles: "normalizedTitle (resp_title earlier) = t" "normalizedTitle (resp_title later) = t"
    by (auto simp: owned_only)
  have calls: "h' = h @ (if dryRun then [] else map ?toCall (plannedActions jiraKey scenarios existing))"
    using syncCases_calls [of env dryRun jiraKey sectionId ticket scenarios existing result h] run by simp
  have differ: "resp_id earlier \<noteq> resp_id later" if ids: "distinct (map resp_id existing)"
  proof -
    from ids have "distinct (map resp_id ?owned)"
      by (simp add: jiraTicketTestCases_def distinct_map_filter)
    then have "distinct (map resp_id (filter (\<lambda>c. normalizedTitle (resp_title c) = t) ?owned))"
      by (rule distinct_map_filter)
    then show ?thesis by (simp add: dup)
  qed
  have a: "h' ! (length h + i) = UpdateTestCase (resp_id later) (testCasePayload (scenarios ! i) sectionId ticket)"
    if "\<not> dryRun" "i < length scenarios" "normalizedTitle (name (scenarios ! i)) = t" for i
    using that calls lookup by (simp add: plannedActions_def nth_append)
  have b: "c \<noteq> UpdateTestCase (resp_id earlier) payload"
    if ids: "distinct (map resp_id existing)" and c: "c \<in> set (drop (length h) h')" for c payload
  proof
    assume eq: "c = UpdateTestCase (resp_id earlier) payload"
    from c calls obtain a where a: "a \<in> set (plannedActions jiraKey scenarios existing)" and ca: "?toCall a = c"
      by (auto split: if_splits)
    from update_call_target [OF a ca [unfolded eq]] obtain sc :: ParsedScenario and target where
      "target \<in> set existing" "normalizedTitle (resp_title target) = normalizedTitle (name sc)"
      "?m (normalizedTitle (name sc)) = Some target" "resp_id target = resp_id earlier"
      by metis
    moreover from same_id_same_case [OF ids this(1) owned(1) this(4)] have "target = earlier" .
    ultimately have "?m t = Some earlier" using titles by simp
    with lookup have "earlier = later" by simp
    with differ [OF ids] show False by simp
  qed
  have cdel: "earlier \<notin> set (testCasesToDelete jiraKey existing scenarios) \<and>
           later \<notin> set (testCasesToDelete jiraKey existing scenarios)"
    if "\<exists>sc\<in>set scenarios. normalizedTitle (name sc) = t"
  proof -
    from that have "t \<in> jiraScenarioTitles scenarios"
      by (auto simp: jiraScenarioTitles_def image_iff)
    with titles show ?thesis by (simp add: testCasesToDelete_def)
  qed
  have d: "c \<noteq> DeleteTestCase (resp_id earlier) \<and> c \<noteq> DeleteTestCase (resp_id later)"
    if some: "\<exists>sc\<in>set scenarios. normalizedTitle (name sc) = t"
      and ids: "distinct (map resp_id existing)" and c: "c \<in> set (drop (length h) h')" for c
  proof -
    from c calls obtain a where a: "a \<in> set (plannedActions jiraKey scenarios existing)" and ca: "?toCall a = c"
      by (auto split: if_splits)
    have "c \<noteq> DeleteTestCase (resp_id x)" if x: "x \<in> set existing" "x \<notin> set (testCasesToDelete jiraKey existing scenarios)" for x
    proof
      assume eq: "c = DeleteTestCase (resp_id x)"
      from delete_call_target [OF a ca [unfolded eq]] obtain target where
        "target \<in> set existing" "target \<in> set (testCasesToDelete jiraKey existing scenarios)"
        "resp_id target = resp_id x"
        by metis
      moreover from same_id_same_case [OF ids this(1) x(1) this(3)] have "target = x" .
      ultimately show False using x(2) by simp
    qed
    with owned cdel [OF some] show ?thesis by blast
  qed
  from lookup a b cdel d show ?thesis by blast
qed

theorem duplicate_titles_last_wins_witness:
  "existingCasesMap (jiraTicketTestCases ''PROJ-1'' duplicateCases) ''successful login'' =
     Some (duplicateCases ! 1) \<and>
   snd (syncCases demoStore False ''PROJ-1'' 102 loginTicket loginScenarios duplicateCases
          (emptyResult loginTicket 2, [])) ! 0 =
     UpdateTestCase 32 (testCasePayload (loginScenarios ! 0) 102 loginTicket) \<and>
   UpdateTestCase 31 (testCasePayload (loginScenarios ! 0) 102 loginTicket) \<notin>
     set (snd (syncCases demoStore False ''PROJ-1'' 102 loginTicket loginScenarios duplicateCases
                 (emptyResult loginTicket 2, []))) \<and>
   duplicateCases ! 0 \<notin> set (testCasesToDelete ''PROJ-1'' duplicateCases loginScenarios) \<and>
   duplicateCases ! 1 \<notin> set (testCasesToDelete ''PROJ-1'' duplicateCases loginScenarios) \<and>
   DeleteTestCase 31 \<notin>
     set (snd (syncCases demoStore False ''PROJ-1'' 102 loginTicket loginScenarios duplicateCases
                 (emptyResult loginTicket 2, []))) \<and>
   DeleteTestCase 32 \<notin>
     set (snd (syncCases demoStore False ''PROJ-1'' 102 loginTicket loginScenarios duplicateCases
                 (emptyResult loginTicket 2, [])))"
proof -
  let ?run = "syncCases demoStore False ''PROJ-1'' 102 loginTicket loginScenarios duplicateCases
                (emptyResult loginTicket 2, [])"
  have run: "?run = (fst ?run, snd ?run)" by simp
  have ids: "distinct (map resp_id duplicateCases)" by (simp add: duplicateCases_def)
  have some: "\<exists>sc\<in>set loginScenarios. normalizedTitle (name sc) = ''successful login''"
    using login_title by (intro bexI [of _ "loginScenarios ! 0"]) (simp_all add: loginScenarios_def)
  have first: "0 < length loginScenarios" by (simp add: loginScenarios_def)
  have numbers: "resp_id (duplicateCases ! 0) = 31" "resp_id (duplicateCases ! 1) = 32"
    by (simp_all add: duplicateCases_def)
  from duplicate_titles_last_wins [OF duplicate_owned run] ids some first login_title numbers
  show ?thesis by auto
qed

section \<open>The path of the section\<close>

subsection \<open>The parts of the name and of its lower-case form\<close>

text \<open>
  The loop over the path reads \<open>nameParts[i]\<close> and \<open>originalNameParts[i]\<close> for every index of
  \<open>nameParts\<close>. The two arrays have the same length, so the pairs of \<open>findNamedSection\<close> are
  all of them.
\<close>

lemma trim_empty: "(trim s = []) = (\<forall>c\<in>set s. isSpace c)"
proof -
  have "(trim s = []) = (\<forall>c\<in>set (dropWhile isSpace s). isSpace c)"
    by (simp add: trim_def dropWhile_eq_Nil_conv)
  also have "\<dots> = (\<forall>c\<in>set s. isSpace c)"
  proof
    assume "\<forall>c\<in>set (dropWhile isSpace s). isSpace c"
    then have "dropWhile isSpace s = []" by (metis hd_dropWhile list.set_sel(1))
    then show "\<forall>c\<in>set s. isSpace c" by (simp add: dropWhile_eq_Nil_conv)
  next
    assume "\<forall>c\<in>set s. isSpace c"
    then show "\<forall>c\<in>set (dropWhile isSpace s). isSpace c" by (metis set_dropWhileD)
  qed
  finally show ?thesis .
qed

lemma splitAcc_parts:
  "length (filter (\<lambda>part. length part > 0) (map trim (splitAcc (CHR ''/'') cur s))) =
   countParts (\<exists>c\<in>set cur. \<not> isSpace c) s"
proof (induction s arbitrary: cur)
  case Nil
  show ?case by (simp add: trim_empty)
next
  case (Cons c cs)
  show ?case
  proof (cases "c = CHR ''/''")
    case True
    with Cons.IH [of "[]"] show ?thesis by (simp add: trim_empty)
  next
    case False
    have "(\<exists>x\<in>set (cur @ [c]). \<not> isSpace x) = ((\<exists>x\<in>set cur. \<not> isSpace x) \<or> \<not> isSpace c)"
      by auto
    with False Cons.IH [of "cur @ [c]"] show ?thesis by simp
  qed
qed

lemma pathParts_count: "length (pathParts path) = countParts False path"
  using splitAcc_parts [of "[]" path] by (simp add: pathParts_def split_def)

lemma slash_not_space: "\<not> isSpace (CHR ''/'')"
  by (simp add: isSpace_def)

lemma countParts_leading: "countParts seen (dropWhile isSpace s) = countParts seen s"
  by (induction s) (auto simp: slash_not_space)

lemma countParts_trailing: "\<forall>c\<in>set ws. isSpace c \<Longrightarrow> countParts seen (s @ ws) = countParts seen s"
proof (induction s arbitrary: seen)
  case Nil
  then show ?case by (induction ws) (auto simp: slash_not_space)
next
  case (Cons c cs)
  then show ?case by simp
qed

lemma countParts_trim: "countParts seen (trim s) = countParts seen s"
proof -
  let ?t = "dropWhile isSpace s"
  have "rev ?t = takeWhile isSpace (rev ?t) @ dropWhile isSpace (rev ?t)" by simp
  then have "?t = trim s @ rev (takeWhile isSpace (rev ?t))"
    by (metis rev_append rev_rev_ident trim_def)
  moreover have "\<forall>c\<in>set (rev (takeWhile isSpace (rev ?t))). isSpace c"
    by (metis set_rev set_takeWhileD)
  ultimately have "countParts seen ?t = countParts seen (trim s)"
    using countParts_trailing by metis
  then show ?thesis by (simp add: countParts_leading)
qed

lemma toLowerChar_code:
  "(of_char (toLowerChar c) :: nat) =
     (if (65 \<le> (of_char c :: nat) \<and> (of_char c :: nat) \<le> 90) \<or>
         (192 \<le> (of_char c :: nat) \<and> (of_char c :: nat) \<le> 222 \<and> (of_char c :: nat) \<noteq> 215)
      then of_char c + 32 else of_char c)"
  by (simp add: toLowerChar_def Let_def)

lemma slash_code: "(c = CHR ''/'') = ((of_char c :: nat) = 47)"
proof -
  have "(c = CHR ''/'') = ((of_char c :: nat) = of_char (CHR ''/''))" by (simp only: of_char_eq_iff)
  then show ?thesis by simp
qed

lemma space_code: "isSpace c = ((of_char c :: nat) \<in> {9, 10, 11, 12, 13, 32, 160})"
proof -
  have eq: "(c = d) = ((of_char c :: nat) = of_char d)" for d by (simp only: of_char_eq_iff)
  from eq [of "CHR 0x09"] eq [of "CHR 0x0A"] eq [of "CHR 0x0B"] eq [of "CHR 0x0C"] eq [of "CHR 0x0D"]
    eq [of "CHR 0x20"] eq [of "CHR 0xA0"]
  show ?thesis by (simp add: isSpace_def)
qed

lemma toLowerChar_slash: "(toLowerChar c = CHR ''/'') = (c = CHR ''/'')"
  by (simp add: slash_code toLowerChar_code)

lemma toLowerChar_space: "isSpace (toLowerChar c) = isSpace c"
  by (simp add: space_code toLowerChar_code)

lemma countParts_toLowerCase: "countParts seen (toLowerCase s) = countParts seen s"
  by (induction s arbitrary: seen) (simp_all add: toLowerCase_def toLowerChar_slash toLowerChar_space)

lemma nameParts_aligned: "length (pathParts (trim (toLowerCase path))) = length (pathParts path)"
  by (simp add: pathParts_count countParts_trim countParts_toLowerCase)

subsection \<open>Parent and child\<close>

lemma parentChild_parts:
  "pathParts ''Parent/Child'' = [''Parent'', ''Child'']"
  "trim (toLowerCase ''Parent/Child'') = ''parent/child''"
  "pathParts ''parent/child'' = [''parent'', ''child'']"
  "trim (toLowerCase ''Parent'') = ''parent''"
  "trim (toLowerCase ''Child'') = ''child''"
  by code_simp+

text \<open>
  C8. Take a suite in which no section is named \<open>Parent\<close> or \<open>Child\<close> (names compared in lower
  case and trimmed), the section path \<open>Parent/Child\<close>, creation of sections switched on and the
  dry run off. Let the store answer the creation of \<open>Parent\<close> with a section of that name and the
  creation of \<open>Child\<close> with a section, both with an id other than zero. Then the resolution
  lists the sections of the suite and makes exactly two creation calls, \<open>Parent\<close> without a
  parent and then \<open>Child\<close> under the id returned for \<open>Parent\<close>, and the section id it passes on
  to the listing and the creation of cases is the id returned for \<open>Child\<close>. This holds when the
  suite has no section at all (\<open>createSectionHierarchy\<close>) and when it has others (the walk in
  \<open>syncTicketToTestRail\<close>).
\<close>

theorem parent_child_created:
  assumes suite: "suite \<noteq> 0"
    and fetched: "getSections env h projectId suite = Inr sections"
    and neither: "\<forall>s\<in>set sections. trim (toLowerCase (sec_name s)) \<noteq> ''parent'' \<and>
                                     trim (toLowerCase (sec_name s)) \<noteq> ''child''"
    and parent: "createSection env (h @ [GetSections projectId suite]) projectId suite ''Parent'' None =
                   Inr parent"
    and child: "createSection env
                  (h @ [GetSections projectId suite, CreateSection projectId suite ''Parent'' None])
                  projectId suite ''Child'' (Some (sec_id parent)) = Inr child"
    and echo: "sec_name parent = ''Parent''"
    and ids: "sec_id parent \<noteq> 0" "sec_id child \<noteq> 0"
  shows "resolveSection env projectId (Some suite) testrailSuiteId testrailSectionId
           (Some ''Parent/Child'') False True h =
         (Inr (sec_id child, Some suite),
          h @ [GetSections projectId suite,
               CreateSection projectId suite ''Parent'' None,
               CreateSection projectId suite ''Child'' (Some (sec_id parent))])"
proof (cases "sections = []")
  case True
  have final: "\<exists>s. find (\<lambda>s. sec_id s = sec_id child) [parent, child] = Some s \<and> sec_id s = sec_id child"
    by simp
  then obtain s where s: "find (\<lambda>s. sec_id s = sec_id child) [parent, child] = Some s" "sec_id s = sec_id child"
    by blast
  show ?thesis
    using suite fetched parent child echo ids True s
    by (simp add: resolveSection_def resolveSectionInSuite_def createSectionHierarchy_def
        bindIO_def callIO_def returnIO_def throwIO_def truthy_def truthyStr_def stringOf_def numberOf_def
        parentChild_parts underParent_def noParent_def)
next
  case False
  have none1: "find (\<lambda>s. trim (toLowerCase (sec_name s)) = ''parent'' \<and> underParent None s) sections = None"
    using neither by (auto simp: find_None_iff)
  have none2: "find (\<lambda>s. trim (toLowerCase (sec_name s)) = ''child'' \<and> underParent (Some (sec_id parent)) s)
                 (sections @ [parent]) = None"
    using neither echo by (auto simp: find_None_iff parentChild_parts)
  show ?thesis
    using suite fetched parent child echo ids False none1 none2
    by (simp add: resolveSection_def resolveSectionInSuite_def selectNamedSection_def findNamedSection_def
        bindIO_def callIO_def returnIO_def throwIO_def truthy_def truthyStr_def stringOf_def numberOf_def
        orUndefined_def parentChild_parts Let_def)
qed

theorem parent_child_created_witness:
  "resolveSection demoStore 1 (Some 5) None None (Some ''Parent/Child'') False True [] =
     (Inr (102, Some 5),
      [GetSections 1 5, CreateSection 1 5 ''Parent'' None, CreateSection 1 5 ''Child'' (Some 101)]) \<and>
   resolveSection stockedStore 1 (Some 5) None None (Some ''Parent/Child'') False True [] =
     (Inr (102, Some 5),
      [GetSections 1 5, CreateSection 1 5 ''Parent'' None, CreateSection 1 5 ''Child'' (Some 101)])"
proof -
  let ?parent = "\<lparr>sec_id = 101, sec_name = ''Parent'', sec_suite_id = 5, sec_parent_id = None\<rparr>"
  let ?child = "\<lparr>sec_id = 102, sec_name = ''Child'', sec_suite_id = 5, sec_parent_id = Some 101\<rparr>"
  let ?smoke = "\<lparr>sec_id = 7, sec_name = ''Smoke tests'', sec_suite_id = 5, sec_parent_id = None\<rparr>"
  have smoke: "trim (toLowerCase ''Smoke tests'') \<noteq> ''parent''" "trim (toLowerCase ''Smoke tests'') \<noteq> ''child''"
    by code_simp+
  have a: "resolveSection demoStore 1 (Some 5) None None (Some ''Parent/Child'') False True [] =
     (Inr (sec_id ?child, Some 5),
      [] @ [GetSections 1 5, CreateSection 1 5 ''Parent'' None,
            CreateSection 1 5 ''Child'' (Some (sec_id ?parent))])"
    by (rule parent_child_created [where sections = "[]"]) (simp_all add: demoStore_def)
  have b: "resolveSection stockedStore 1 (Some 5) None None (Some ''Parent/Child'') False True [] =
     (Inr (sec_id ?child, Some 5),
      [] @ [GetSections 1 5, CreateSection 1 5 ''Parent'' None,
            CreateSection 1 5 ''Child'' (Some (sec_id ?parent))])"
    by (rule parent_child_created [where sections = "[?smoke]"])
       (simp_all add: demoStore_def stockedStore_def smoke)
  from a b show ?thesis by simp
qed

section \<open>The dry run\<close>

subsection \<open>A dry run only reads\<close>

lemma quiet_return: "quiet (returnIO x)"
  by (simp add: quiet_def returnIO_def)

lemma quiet_throw: "quiet (throwIO message)"
  by (simp add: quiet_def throwIO_def)

lemma quiet_call: "\<not> mutating c \<Longrightarrow> quiet (callIO answer c)"
  by (simp add: quiet_def callIO_def)

lemma quiet_bind:
  assumes "quiet act" and "\<And>x. quiet (f x)"
  shows "quiet (bindIO act f)"
  unfolding quiet_def
proof
  fix h
  from assms(1) obtain calls where a: "snd (act h) = h @ calls" "\<forall>c\<in>set calls. \<not> mutating c"
    unfolding quiet_def by blast
  show "\<exists>calls. snd (bindIO act f h) = h @ calls \<and> (\<forall>c\<in>set calls. \<not> mutating c)"
  proof (cases "act h")
    case (Pair r h')
    with a have h': "h' = h @ calls" by simp
    show ?thesis
    proof (cases r)
      case (Inl message)
      with Pair h' a(2) show ?thesis by (auto simp: bindIO_def)
    next
      case (Inr x)
      from assms(2) [of x] obtain later where
        b: "snd (f x h') = h' @ later" "\<forall>c\<in>set later. \<not> mutating c"
        unfolding quiet_def by blast
      from Pair Inr have "snd (bindIO act f h) = snd (f x h')" by (simp add: bindIO_def)
      with b h' have "snd (bindIO act f h) = h @ (calls @ later)" by simp
      moreover from a(2) b(2) have "\<forall>c\<in>set (calls @ later). \<not> mutating c" by auto
      ultimately show ?thesis by blast
    qed
  qed
qed

lemma quiet_walkSectionPath:
  "quiet (walkSectionPath env projectId resolvedSuiteId createSectionIfMissing True walked parts
            currentParentId pathTraversed sections selectedSection)"
proof (induction parts arbitrary: walked currentParentId pathTraversed sections selectedSection)
  case Nil
  show ?case by (simp add: quiet_return)
next
  case (Cons part later)
  obtain partNameNormalized partNameOriginal where part: "part = (partNameNormalized, partNameOriginal)"
    by (cases part)
  show ?case unfolding part using Cons.IH
    by (cases createSectionIfMissing) (simp_all add: quiet_return quiet_throw split: option.splits)
qed

lemma quiet_findNamedSection:
  "quiet (findNamedSection env projectId resolvedSuiteId sectionName True createSectionIfMissing sections)"
  by (simp add: findNamedSection_def Let_def quiet_return quiet_walkSectionPath)

lemma quiet_selectNamedSection:
  "quiet (selectNamedSection env projectId resolvedSuiteId sectionName True createSectionIfMissing sections)"
  unfolding selectNamedSection_def
  by (rule quiet_bind) (auto simp: quiet_findNamedSection quiet_return quiet_throw split: option.splits)

lemma quiet_resolveSectionInSuite:
  "quiet (resolveSectionInSuite env projectId resolvedSuiteId sectionName True createSectionIfMissing)"
  unfolding resolveSectionInSuite_def
  by (intro quiet_bind quiet_call)
     (auto simp: quiet_return quiet_throw quiet_selectNamedSection intro!: quiet_bind split: option.splits)

lemma quiet_resolveSection:
  "quiet (resolveSection env projectId resolvedSuiteId testrailSuiteId testrailSectionId sectionName True
            createSectionIfMissing)"
proof -
  have "quiet (\<lambda>h. case getSection env h n of
                Inr sectionDetails \<Rightarrow> (Inr (g sectionDetails), h @ [GetSection n])
              | Inl message \<Rightarrow> (Inr d, h @ [GetSection n]))" for n d and g :: "TestRailSection \<Rightarrow> int \<times> int option"
    by (auto simp: quiet_def split: sum.splits)
  then show ?thesis
    unfolding resolveSection_def
    by (auto simp: quiet_throw quiet_return quiet_resolveSectionInSuite intro!: quiet_bind)
qed


lemma quiet_resolveSuite:
  "quiet (resolveSuite env projectId testrailSuiteId suiteName True createSuiteIfMissing)"
proof -
  have failing: "quiet ((\<lambda>h. case getSuites env h projectId of
                           Inr availableSuites \<Rightarrow> (Inl (f availableSuites), h @ [GetSuites projectId])
                         | Inl message \<Rightarrow> (Inl (g message), h @ [GetSuites projectId])) :: int option io)"
    for f g
    by (auto simp: quiet_def split: sum.splits)
  show ?thesis
    unfolding resolveSuite_def
    by (auto simp: quiet_return quiet_call failing intro!: quiet_bind split: option.splits)
qed

lemma quiet_syncCases:
  "quiet (\<lambda>h. case syncCases env True jiraKey sectionId ticket scenarios existing (r, h) of
                 (result, h') \<Rightarrow> (Inr result, h'))"
  unfolding quiet_def
proof
  fix h
  from syncCases_calls [of env True jiraKey sectionId ticket scenarios existing r h]
  show "\<exists>calls. snd (case syncCases env True jiraKey sectionId ticket scenarios existing (r, h) of
                        (result, h') \<Rightarrow> (Inr result, h')) = h @ calls \<and> (\<forall>c\<in>set calls. \<not> mutating c)"
    by (intro exI [of _ "[]"]) (auto split: prod.splits)
qed

lemma dry_run_reads_only:
  assumes "syncTicketToTestRail env jiraKey projectId testrailSuiteId testrailSectionId sectionName True
             suiteName createSuiteIfMissing createSectionIfMissing h = (outcome, h')"
  shows "\<exists>calls. h' = h @ calls \<and> (\<forall>c\<in>set calls. \<not> mutating c)"
proof -
  have "quiet (syncTicketToTestRail env jiraKey projectId testrailSuiteId testrailSectionId sectionName True
             suiteName createSuiteIfMissing createSectionIfMissing)"
    unfolding syncTicketToTestRail_def
    by (intro quiet_bind quiet_resolveSuite quiet_resolveSection)
       (auto simp: quiet_return quiet_call quiet_syncCases intro!: quiet_bind)
  with assms show ?thesis unfolding quiet_def by (metis snd_conv)
qed

subsection \<open>The counters of a dry run\<close>

text \<open>
  In a dry run steps 4 and 5 make no call and record no error; a scenario whose title is in the
  lookup counts as updated, any other as created, and each case to delete as deleted.
\<close>

lemma fold_syncScenario_dry:
  "fold (syncScenario env True sectionId ticket casesMap) scenarios (r, h) = (r', h') \<Longrightarrow>
   h' = h \<and> errors r' = errors r \<and> scenariosSkipped r' = scenariosSkipped r \<and>
   scenariosDeleted r' = scenariosDeleted r \<and>
   scenariosUpdated r' =
     scenariosUpdated r + length (filter (\<lambda>sc. casesMap (normalizedTitle (name sc)) \<noteq> None) scenarios) \<and>
   scenariosCreated r' =
     scenariosCreated r + length (filter (\<lambda>sc. casesMap (normalizedTitle (name sc)) = None) scenarios)"
proof (induction scenarios arbitrary: r)
  case Nil
  then show ?case by simp
next
  case (Cons sc rest)
  show ?case
  proof (cases "casesMap (normalizedTitle (name sc))")
    case None
    then have "syncScenario env True sectionId ticket casesMap sc (r, h) =
                 (r\<lparr>scenariosCreated := scenariosCreated r + 1\<rparr>, h)"
      by (simp add: syncScenario_def)
    with Cons.prems have "fold (syncScenario env True sectionId ticket casesMap) rest
                            (r\<lparr>scenariosCreated := scenariosCreated r + 1\<rparr>, h) = (r', h')"
      by simp
    from Cons.IH [OF this] None show ?thesis by simp
  next
    case (Some existingCase)
    then have "syncScenario env True sectionId ticket casesMap sc (r, h) =
                 (r\<lparr>scenariosUpdated := scenariosUpdated r + 1\<rparr>, h)"
      by (simp add: syncScenario_def)
    with Cons.prems have "fold (syncScenario env True sectionId ticket casesMap) rest
                            (r\<lparr>scenariosUpdated := scenariosUpdated r + 1\<rparr>, h) = (r', h')"
      by simp
    from Cons.IH [OF this] Some show ?thesis by simp
  qed
qed

lemma fold_deleteCase_dry:
  "fold (deleteCase env True) cases (r, h) = (r', h') \<Longrightarrow>
   h' = h \<and> errors r' = errors r \<and> scenariosSkipped r' = scenariosSkipped r \<and>
   scenariosCreated r' = scenariosCreated r \<and> scenariosUpdated r' = scenariosUpdated r \<and>
   scenariosDeleted r' = scenariosDeleted r + length cases"
proof (induction cases arbitrary: r)
  case Nil
  then show ?case by simp
next
  case (Cons tc rest)
  have "deleteCase env True tc (r, h) = (r\<lparr>scenariosDeleted := scenariosDeleted r + 1\<rparr>, h)"
    by (simp add: deleteCase_def)
  with Cons.prems have "fold (deleteCase env True) rest
                          (r\<lparr>scenariosDeleted := scenariosDeleted r + 1\<rparr>, h) = (r', h')"
    by simp
  from Cons.IH [OF this] show ?case by simp
qed

lemma dry_run_counters:
  assumes "syncCases env True jiraKey sectionId ticket scenarios existing (r, h) = (r', h')"
  shows "h' = h \<and> errors r' = errors r \<and> scenariosSkipped r' = scenariosSkipped r \<and>
         scenariosUpdated r' = scenariosUpdated r +
           length (filter (\<lambda>sc. existingCasesMap (jiraTicketTestCases jiraKey existing)
                                   (normalizedTitle (name sc)) \<noteq> None) scenarios) \<and>
         scenariosCreated r' = scenariosCreated r +
           length (filter (\<lambda>sc. existingCasesMap (jiraTicketTestCases jiraKey existing)
                                   (normalizedTitle (name sc)) = None) scenarios) \<and>
         scenariosDeleted r' = scenariosDeleted r + length (testCasesToDelete jiraKey existing scenarios)"
proof -
  obtain r1 h1 where first: "fold (syncScenario env True sectionId ticket
      (existingCasesMap (jiraTicketTestCases jiraKey existing))) scenarios (r, h) = (r1, h1)"
    by (cases "fold (syncScenario env True sectionId ticket
      (existingCasesMap (jiraTicketTestCases jiraKey existing))) scenarios (r, h)")
  with assms have second: "fold (deleteCase env True) (testCasesToDelete jiraKey existing scenarios) (r1, h1) =
      (r', h')"
    by (simp add: syncCases_def)
  from fold_syncScenario_dry [OF first] fold_deleteCase_dry [OF second] show ?thesis by simp
qed

subsection \<open>The section that would be created\<close>

text \<open>
  In a suite without sections, the section to create is stood in for by the id \<open>-1\<close>; under
  that id the cases are not listed, and every scenario counts as created.
\<close>

lemma dry_run_section_sentinel:
  assumes "suite \<noteq> 0" and "sectionName \<noteq> []"
    and "getSections env h projectId suite = Inr []"
  shows "resolveSection env projectId (Some suite) testrailSuiteId testrailSectionId (Some sectionName)
           True True h =
         (Inr (- 1, Some suite), h @ [GetSections projectId suite])"
  using assms
  by (simp add: resolveSection_def resolveSectionInSuite_def truthy_def truthyStr_def numberOf_def
      bindIO_def callIO_def returnIO_def)

lemma dry_run_listing_skipped:
  assumes "resolveSuite env projectId suite suiteName True createSuiteIfMissing h0 = (Inr resolved, h1)"
    and "resolveSection env projectId resolved suite section sectionName True createSectionIfMissing h1 =
           (Inr (- 1, suiteId), h2)"
    and "fetchTicket env h2 jiraKey = Inr ticket"
  shows "\<exists>summary.
           syncTicketToTestRail env jiraKey projectId suite section sectionName True suiteName
             createSuiteIfMissing createSectionIfMissing h0 = (Inr summary, h2 @ [FetchTicket jiraKey]) \<and>
           scenariosCreated summary = length (parseScenarios (ticket_description ticket)) \<and>
           scenariosUpdated summary = 0 \<and> scenariosDeleted summary = 0 \<and>
           scenariosSkipped summary = 0 \<and> errors summary = []"
proof (cases "parseScenarios (ticket_description ticket) = []")
  case True
  with assms show ?thesis
    by (simp add: syncTicketToTestRail_def bindIO_def callIO_def returnIO_def emptyResult_def)
next
  case False
  let ?scenarios = "parseScenarios (ticket_description ticket)"
  obtain r' h' where run: "syncCases env True jiraKey (- 1) ticket ?scenarios []
      (emptyResult ticket (length ?scenarios), h2 @ [FetchTicket jiraKey]) = (r', h')"
    by (cases "syncCases env True jiraKey (- 1) ticket ?scenarios []
      (emptyResult ticket (length ?scenarios), h2 @ [FetchTicket jiraKey])")
  from dry_run_counters [OF run]
  have "h' = h2 @ [FetchTicket jiraKey]" "scenariosCreated r' = length ?scenarios"
    "scenariosUpdated r' = 0" "scenariosDeleted r' = 0" "scenariosSkipped r' = 0" "errors r' = []"
    by (simp_all add: emptyResult_def jiraTicketTestCases_def existingCasesMap_def testCasesToDelete_def)
  moreover from assms False run
  have "syncTicketToTestRail env jiraKey projectId suite section sectionName True suiteName
             createSuiteIfMissing createSectionIfMissing h0 = (Inr r', h')"
    by (simp add: syncTicketToTestRail_def bindIO_def callIO_def returnIO_def)
  ultimately show ?thesis by simp
qed

subsection \<open>The suite that would be created\<close>

text \<open>
  C9. In a dry run, when the named suite does not exist and is to be created, the code puts no
  placeholder in the place of the suite id: the suite id stays undefined, and without a section
  id the run ends with the error that no suite id, suite name or section id was given, after the
  one call that looked the suite up. The claim, and the example of the README that previews the
  creation of a suite and a section with \<open>--dry-run\<close>, expect the run to go on with a stand-in
  suite, as it does with the stand-in section id \<open>-1\<close>.
\<close>

theorem dry_run_suite_creation_aborts:
  assumes "suiteName \<noteq> []" "\<not> truthy testrailSuiteId" "\<not> truthy testrailSectionId"
    and "findSuiteByName env h projectId suiteName = Inr None"
  shows "syncTicketToTestRail env jiraKey projectId testrailSuiteId testrailSectionId sectionName True
           (Some suiteName) True createSectionIfMissing h =
         (Inl ''Either suite ID, suite name, or section ID must be provided'',
          h @ [FindSuiteByName projectId suiteName])"
  using assms
  by (simp add: syncTicketToTestRail_def resolveSuite_def resolveSection_def bindIO_def callIO_def
      returnIO_def throwIO_def)

theorem dry_run_suite_creation_aborts_witness:
  "syncTicketToTestRail demoStore ''PROJ-1'' 1 None None (Some ''New Section'') True (Some ''New Suite'')
     True True [] =
   (Inl ''Either suite ID, suite name, or section ID must be provided'', [FindSuiteByName 1 ''New Suite''])"
proof -
  have "findSuiteByName demoStore [] 1 ''New Suite'' = Inr None" by (simp add: demoStore_def)
  from dry_run_suite_creation_aborts [OF _ _ _ this, of None None "''PROJ-1''" "Some ''New Section''" True]
  show ?thesis by (simp add: truthy_def)
qed

end
